theory Spec2Isabelle
  imports Main "HOL-Library.AList" "HOL-Library.Sublist"
begin


section \<open>Context values and the function table\<close>

text \<open>
  The context file is decoded by \<^verbatim>\<open>json.Unmarshal\<close> into a \<^verbatim>\<open>map[string]interface{}\<close>.
  The dynamic values such a map can hold are \<^verbatim>\<open>nil\<close>, \<^verbatim>\<open>bool\<close>, \<^verbatim>\<open>float64\<close>, \<^verbatim>\<open>string\<close>,
  \<^verbatim>\<open>[]interface{}\<close> and \<^verbatim>\<open>map[string]interface{}\<close>. The template package never looks inside a
  number, so its payload is kept as an integer. A Go map is written as an association list:
  the order of the list is the order in which \<^verbatim>\<open>range\<close> happens to visit the keys.
\<close>

datatype val =
    VNil
  | VBool bool
  | VNum int
  | VStr string
  | VList "val list"
  | VMap "(string \<times> val) list"

type_synonym ctxmap = "(string \<times> val) list"

text \<open>Indexing a Go map: a missing key yields the zero value, here \<^verbatim>\<open>nil\<close>.\<close>

definition mapIndex :: "ctxmap \<Rightarrow> string \<Rightarrow> val" where
  "mapIndex m k = (case map_of m k of None \<Rightarrow> VNil | Some v \<Rightarrow> v)"

text \<open>
  \<^verbatim>\<open>prompt.New(fieldName, defval)\<close> returns a closure that owns one memo cell. The cell is
  named after the place of the call: the gate of a group, a child of a group, or a top-level
  variable. The keys of a Go map are distinct, so one run of \<^verbatim>\<open>BindPrompts\<close> makes at most one
  call for each name.
\<close>

datatype cell = GateCell string | ChildCell string string | TopCell string

datatype prompt = Prompt cell string val

text \<open>
  The closures stored in the function table, one constructor for each function literal of
  \<^verbatim>\<open>handleBindDefaults\<close> and \<^verbatim>\<open>handleBindPrompts\<close>, with the variables it captures.
  \<open>Helper\<close> stands for an entry that the package-level table holds before binding (the
  template helper functions, declared in a file that is not part of the sources at hand).
\<close>

datatype binding =
    ConstFalse
  | DefaultOf val
  | GateFn prompt
  | ChildFn val prompt prompt
  | PromptFn prompt
  | Helper

type_synonym funcmap = "string \<rightharpoonup> binding"

record metadata =
  Tag :: string
  Repository :: string
  Created :: "nat option"

record dirTemplate =
  Path :: string
  Context :: ctxmap
  FuncMap :: funcmap
  Metadata :: metadata
  alignment :: string
  ShouldUseDefaults :: bool

definition UseDefaultValues :: "dirTemplate \<Rightarrow> dirTemplate" where
  "UseDefaultValues t = t\<lparr>ShouldUseDefaults := True\<rparr>"

subsection \<open>Binding\<close>

text \<open>
  \<^verbatim>\<open>handleBindDefaults\<close>: a group with at least one child gets a gate that is constantly
  false; every child, and every key that is not a group, gets a closure over its declared
  value.
\<close>

definition handleBindDefaults :: "dirTemplate \<Rightarrow> string \<Rightarrow> dirTemplate" where
  "handleBindDefaults t parentKey =
     (case mapIndex (Context t) parentKey of
        VMap childMap \<Rightarrow>
          (let fm1 = (if length childMap > 0 then (FuncMap t)(parentKey \<mapsto> ConstFalse)
                      else FuncMap t);
               fm2 = foldl (\<lambda>fm childKey. fm(childKey \<mapsto> DefaultOf (mapIndex childMap childKey)))
                       fm1 (map fst childMap)
           in t\<lparr>FuncMap := fm2\<rparr>)
      | v \<Rightarrow> t\<lparr>FuncMap := (FuncMap t)(parentKey \<mapsto> DefaultOf v)\<rparr>)"

text \<open>
  \<^verbatim>\<open>handleBindPrompts\<close>: the gate prompt \<^verbatim>\<open>advancedMode\<close> is created for every group, and
  stored under the group's key when the group has a child; every child closure captures its
  declared value, its own prompt and \<^verbatim>\<open>advancedMode\<close>.
\<close>

definition handleBindPrompts :: "dirTemplate \<Rightarrow> string \<Rightarrow> dirTemplate" where
  "handleBindPrompts t parentKey =
     (case mapIndex (Context t) parentKey of
        VMap childMap \<Rightarrow>
          (let advancedMode = Prompt (GateCell parentKey) parentKey (VBool False);
               fm1 = (if length childMap > 0 then (FuncMap t)(parentKey \<mapsto> GateFn advancedMode)
                      else FuncMap t);
               fm2 = foldl (\<lambda>fm childKey.
                         (let childPrompt = Prompt (ChildCell parentKey childKey) childKey
                                              (mapIndex childMap childKey)
                          in fm(childKey \<mapsto> ChildFn (mapIndex childMap childKey) childPrompt
                                                advancedMode)))
                       fm1 (map fst childMap)
           in t\<lparr>FuncMap := fm2\<rparr>)
      | v \<Rightarrow> t\<lparr>FuncMap := (FuncMap t)(parentKey \<mapsto> PromptFn (Prompt (TopCell parentKey) parentKey v))\<rparr>)"

definition BindPrompts :: "dirTemplate \<Rightarrow> dirTemplate" where
  "BindPrompts t =
     foldl (\<lambda>t parentKey. if ShouldUseDefaults t then handleBindDefaults t parentKey
                            else handleBindPrompts t parentKey)
       t (map fst (Context t))"

subsection \<open>Calling a binding\<close>

text \<open>
  What a call of a table entry can do: return a value, panic (an index out of range, a
  failed type assertion), be aborted by the user, or, for a helper function, something
  this development does not describe.
\<close>

datatype outcome = Value val | Panic | Aborted | Opaque

datatype answer = Reply val | Interrupt

text \<open>
  The user and the memo cells: \<open>cache\<close> holds the answers already given, \<open>asked\<close> logs
  every question put to the user (latest first), \<open>input\<close> is what the user will type.
\<close>

record world =
  cache :: "(prompt \<times> val) list"
  asked :: "prompt list"
  input :: "answer list"

definition fresh :: "answer list \<Rightarrow> world" where
  "fresh ans = \<lparr>cache = [], asked = [], input = ans\<rparr>"

text \<open>
  Modelled from the spec: the closure returned by \<^verbatim>\<open>prompt.New\<close> (package \<^verbatim>\<open>pkg/prompt\<close> is
  missing from the sources). A prompt-backed binding is evaluated lazily, asks the user
  once, and memoizes the answer for the rest of the render; a prompt aborted by the user is
  a fatal input error. End of input counts as an abort.
\<close>

definition ask :: "prompt \<Rightarrow> world \<Rightarrow> outcome \<times> world" where
  "ask p w =
     (case map_of (cache w) p of
        Some v \<Rightarrow> (Value v, w)
      | None \<Rightarrow>
          (case input w of
             [] \<Rightarrow> (Aborted, w\<lparr>asked := p # asked w\<rparr>)
           | Interrupt # rest \<Rightarrow> (Aborted, w\<lparr>asked := p # asked w, input := rest\<rparr>)
           | Reply v # rest \<Rightarrow>
               (Value v, w\<lparr>cache := (p, v) # cache w, asked := p # asked w, input := rest\<rparr>)))"

text \<open>
  The bodies of the closures. \<open>DefaultOf\<close> indexes a slice at 0 without a length check;
  \<open>ChildFn\<close> asserts that the gate's answer is a \<^verbatim>\<open>bool\<close>, and returns the captured value
  as it is when the gate is false.
\<close>

fun invoke :: "binding \<Rightarrow> world \<Rightarrow> outcome \<times> world" where
  "invoke ConstFalse w = (Value (VBool False), w)"
| "invoke (DefaultOf v) w =
     (case v of
        VList xs \<Rightarrow> (case xs of [] \<Rightarrow> (Panic, w) | x # _ \<Rightarrow> (Value x, w))
      | _ \<Rightarrow> (Value v, w))"
| "invoke (GateFn a) w = ask a w"
| "invoke (ChildFn v p a) w =
     (case ask a w of
        (Value (VBool isAdvanced), w') \<Rightarrow> (if isAdvanced then ask p w' else (Value v, w'))
      | (Value _, w') \<Rightarrow> (Panic, w')
      | (r, w') \<Rightarrow> (r, w'))"
| "invoke (PromptFn p) w = ask p w"
| "invoke Helper w = (Opaque, w)"

text \<open>Calling the entry stored under a name; a name without entry is not callable.\<close>

definition call :: "funcmap \<Rightarrow> string \<Rightarrow> world \<Rightarrow> (outcome \<times> world) option" where
  "call fm n w = (case fm n of None \<Rightarrow> None | Some b \<Rightarrow> Some (invoke b w))"

text \<open>The names a context can bind: its top-level keys and the keys of its groups.\<close>

definition childKeys :: "val \<Rightarrow> string list" where
  "childKeys v = (case v of VMap m \<Rightarrow> map fst m | _ \<Rightarrow> [])"

definition variables :: "ctxmap \<Rightarrow> string list" where
  "variables ctx = concat (map (\<lambda>(k, v). k # childKeys v) ctx)"

text \<open>
  What binding one top-level key \<open>k\<close> with value \<open>v\<close> stores under the name \<open>n\<close>, if
  anything: the child closure wins over the gate when a child carries its group's name,
  as the loop over the children runs after the gate is stored.
\<close>

definition defaultsEntry :: "string \<Rightarrow> val \<Rightarrow> string \<Rightarrow> binding option" where
  "defaultsEntry k v n =
     (case v of
        VMap m \<Rightarrow>
          (if n \<in> set (map fst m) then Some (DefaultOf (mapIndex m n))
           else if n = k \<and> m \<noteq> [] then Some ConstFalse else None)
      | _ \<Rightarrow> (if n = k then Some (DefaultOf v) else None))"

definition promptsEntry :: "string \<Rightarrow> val \<Rightarrow> string \<Rightarrow> binding option" where
  "promptsEntry k v n =
     (case v of
        VMap m \<Rightarrow>
          (if n \<in> set (map fst m)
           then Some (ChildFn (mapIndex m n) (Prompt (ChildCell k n) n (mapIndex m n))
                        (Prompt (GateCell k) k (VBool False)))
           else if n = k \<and> m \<noteq> [] then Some (GateFn (Prompt (GateCell k) k (VBool False)))
           else None)
      | _ \<Rightarrow> (if n = k then Some (PromptFn (Prompt (TopCell k) k v)) else None))"

text \<open>The body of the loop of \<^verbatim>\<open>BindPrompts\<close>, and what one turn of it stores under a name.\<close>

definition bindStep :: "dirTemplate \<Rightarrow> string \<Rightarrow> dirTemplate" where
  "bindStep t parentKey = (if ShouldUseDefaults t then handleBindDefaults t parentKey
                            else handleBindPrompts t parentKey)"

definition entryOf :: "bool \<Rightarrow> string \<Rightarrow> val \<Rightarrow> string \<Rightarrow> binding option" where
  "entryOf d = (if d then defaultsEntry else promptsEntry)"

subsection \<open>Example contexts\<close>

text \<open>
  A context with a scalar, a list and a group; and one where two groups have a child of
  the same name.
\<close>

definition exampleContext :: ctxmap where
  "exampleContext =
     [(''name'', VStr ''app''),
      (''license'', VList [VStr ''MIT'', VStr ''GPL'']),
      (''advanced'', VMap [(''port'', VNum 8080), (''db'', VList [VStr ''pg'', VStr ''lite''])])]"

definition exampleTemplate :: "bool \<Rightarrow> dirTemplate" where
  "exampleTemplate d =
     \<lparr>Path = ''/tpl/template'', Context = exampleContext, FuncMap = [''env'' \<mapsto> Helper],
      Metadata = \<lparr>Tag = ''tpl'', Repository = ''/tpl'', Created = None\<rparr>,
      alignment = [], ShouldUseDefaults = d\<rparr>"

definition clashContext :: ctxmap where
  "clashContext =
     [(''web'', VMap [(''port'', VNum 80)]),
      (''db'', VMap [(''port'', VNum 5432)])]"

definition templateOf :: "ctxmap \<Rightarrow> bool \<Rightarrow> dirTemplate" where
  "templateOf ctx d =
     \<lparr>Path = ''/tpl/template'', Context = ctx, FuncMap = Map.empty,
      Metadata = \<lparr>Tag = ''tpl'', Repository = ''/tpl'', Created = None\<rparr>,
      alignment = [], ShouldUseDefaults = d\<rparr>"

text \<open>
  The memo cell of a prompt.
\<close>

fun cellOf :: "prompt \<Rightarrow> cell" where
  "cellOf (Prompt c _ _) = c"

text \<open>
  The template engine reaches the bindings only by calling entries of the table by name,
  so what a render does to the user and to the memo cells is what some sequence of such
  calls does. Calls that follow a failed one are kept: that only adds behaviours.
\<close>

fun run :: "funcmap \<Rightarrow> string list \<Rightarrow> world \<Rightarrow> world" where
  "run fm [] w = w"
| "run fm (n # ns) w =
     (case call fm n w of None \<Rightarrow> run fm ns w | Some (r, w') \<Rightarrow> run fm ns w')"

text \<open>
  The shape of the closures that binding builds: a child closure holds a prompt of a
  child cell of some group and the gate prompt of the same group; no other closure holds
  a prompt of a child cell.
\<close>

fun wellFormed :: "binding \<Rightarrow> bool" where
  "wellFormed (ChildFn v (Prompt (ChildCell g c) _ _) (Prompt (GateCell g') n d)) =
     (g' = g \<and> n = g \<and> d = VBool False)"
| "wellFormed (ChildFn v _ _) = False"
| "wellFormed (GateFn (Prompt (ChildCell _ _) _ _)) = False"
| "wellFormed (PromptFn (Prompt (ChildCell _ _) _ _)) = False"
| "wellFormed _ = True"

text \<open>
  The invariant behind the gate: whenever a child prompt of a group was put to the user,
  the memo cell of the group's gate holds \<^verbatim>\<open>true\<close>.
\<close>

definition gated :: "world \<Rightarrow> bool" where
  "gated w =
     list_all (\<lambda>p. case cellOf p of
                      ChildCell g c \<Rightarrow>
                        map_of (cache w) (Prompt (GateCell g) g (VBool False)) = Some (VBool True)
                    | _ \<Rightarrow> True) (asked w)"

text \<open>
  Memo cells are written at most once: a later world agrees with an earlier one on every
  cell the earlier one has filled.
\<close>

definition extends :: "world \<Rightarrow> world \<Rightarrow> bool" where
  "extends w w' = (\<forall>q u. map_of (cache w) q = Some u \<longrightarrow> map_of (cache w') q = Some u)"

text \<open>
  A group whose child has a list default; a group without children; a list default
  without elements, at top level and in a group.
\<close>

definition listChildContext :: ctxmap where
  "listChildContext = [(''advanced'', VMap [(''db'', VList [VStr ''pg'', VStr ''lite''])])]"

definition emptyGroupContext :: ctxmap where
  "emptyGroupContext = [(''advanced'', VMap [])]"

definition emptyListContext :: ctxmap where
  "emptyListContext = [(''license'', VList []), (''advanced'', VMap [(''db'', VList [])])]"

section \<open>Loading a template\<close>

text \<open>
  Errors, as far as the code tells them apart: \<^verbatim>\<open>os.IsNotExist\<close>, \<^verbatim>\<open>os.IsExist\<close>, any other
  failure of a system call, a context file that \<^verbatim>\<open>json.Unmarshal\<close> rejects, a template
  that fails while it executes, and a prompt the user aborted.
\<close>

datatype error = NotExist | Exist | OtherIO | Malformed | ExecFailed | InputAborted

text \<open>
  The function literal of \<^verbatim>\<open>Get\<close> that reads the context file. \<^verbatim>\<open>os.Open\<close>,
  \<^verbatim>\<open>ioutil.ReadAll\<close> and \<^verbatim>\<open>json.Unmarshal\<close> are parameters; the nil map it returns for a
  missing file is the empty map.
\<close>

definition loadContext ::
  "(string \<Rightarrow> error + 'f) \<Rightarrow> ('f \<Rightarrow> error + string) \<Rightarrow> (string \<Rightarrow> error + ctxmap) \<Rightarrow>
   string \<Rightarrow> error + ctxmap" where
  "loadContext osOpen readAll unmarshal fname =
     (case osOpen fname of
        Inl err \<Rightarrow> (if err = NotExist then Inr [] else Inl err)
      | Inr f \<Rightarrow>
          (case readAll f of
             Inl err \<Rightarrow> Inl err
           | Inr buf \<Rightarrow>
               (case unmarshal buf of
                  Inl err \<Rightarrow> Inl err
                | Inr metadata \<Rightarrow> Inr metadata)))"

text \<open>
  What \<^verbatim>\<open>Get\<close> needs from outside: the library calls, and the package-level names
  \<^verbatim>\<open>boilr.ContextFileName\<close>, \<^verbatim>\<open>boilr.TemplateDirName\<close> and \<^verbatim>\<open>FuncMap\<close>, whose declarations are
  not part of the sources at hand. \<open>statOf\<close> is \<^verbatim>\<open>times.Stat\<close>: the birth time, when the
  file system has one.
\<close>

record 'f host =
  absOf :: "string \<Rightarrow> error + string"
  osOpen :: "string \<Rightarrow> error + 'f"
  readAll :: "'f \<Rightarrow> error + string"
  unmarshal :: "string \<Rightarrow> error + ctxmap"
  statOf :: "string \<Rightarrow> error + nat option"
  joinOf :: "string \<Rightarrow> string \<Rightarrow> string"
  baseOf :: "string \<Rightarrow> string"
  ContextFileName :: string
  TemplateDirName :: string
  pkgFuncMap :: funcmap

text \<open>
  \<^verbatim>\<open>Get\<close> returns a template and an error. A failure to load the context returns no
  template; a failure of \<^verbatim>\<open>times.Stat\<close> returns the template together with the error.
\<close>

definition Get :: "'f host \<Rightarrow> string \<Rightarrow> dirTemplate option \<times> error option" where
  "Get h path =
     (case absOf h path of
        Inl err \<Rightarrow> (None, Some err)
      | Inr absPath \<Rightarrow>
          (case loadContext (osOpen h) (readAll h) (unmarshal h)
                  (joinOf h absPath (ContextFileName h)) of
             Inl err \<Rightarrow> (None, Some err)
           | Inr ctxt \<Rightarrow>
               (let (md, err) =
                      (case statOf h absPath of
                         Inl e \<Rightarrow> (\<lparr>Tag = [], Repository = [], Created = None\<rparr>, Some e)
                       | Inr birth \<Rightarrow>
                           (\<lparr>Tag = baseOf h absPath, Repository = absPath, Created = birth\<rparr>, None))
                in (Some \<lparr>Path = joinOf h absPath (TemplateDirName h), Context = ctxt,
                           FuncMap = pkgFuncMap h, Metadata = md, alignment = [],
                           ShouldUseDefaults = False\<rparr>, err))))"

text \<open>A host for examples: a template directory with or without a context file.\<close>

definition exampleHost :: "string option \<Rightarrow> string host" where
  "exampleHost ctxFile =
     \<lparr>absOf = (\<lambda>p. Inr (''/home/u/'' @ p)),
      osOpen = (\<lambda>p. case ctxFile of None \<Rightarrow> Inl NotExist | Some c \<Rightarrow> Inr c),
      readAll = (\<lambda>c. Inr c),
      unmarshal = (\<lambda>buf. if buf = ''{}'' then Inr [] else Inl Malformed),
      statOf = (\<lambda>p. Inr None),
      joinOf = (\<lambda>d n. d @ ''/'' @ n),
      baseOf = (\<lambda>p. ''tpl''),
      ContextFileName = ''project.json'',
      TemplateDirName = ''template'',
      pkgFuncMap = [''env'' \<mapsto> Helper]\<rparr>"

section \<open>The destination file system\<close>

text \<open>
  The destination is a flat table from paths to nodes: a file with its permission bits
  and content, or a directory. \<open>denied\<close> lists the paths on which the system refuses to
  create or remove (a permission, a full disk), \<open>unreadable\<close> the paths it refuses to
  read. Whether the parent of a path exists is not tracked: \<^verbatim>\<open>filepath.Walk\<close> visits a
  directory before its entries.
\<close>

datatype node = File nat string | Dir

record filesys =
  nodes :: "(string \<times> node) list"
  denied :: "string list"
  unreadable :: "string list"

text \<open>
  Has the directory at \<open>p\<close> an entry? Paths are compared as strings.
\<close>

definition hasEntries :: "string \<Rightarrow> filesys \<Rightarrow> bool" where
  "hasEntries p d = list_ex (\<lambda>(q, n). prefix (p @ ''/'') q) (nodes d)"

text \<open>\<^verbatim>\<open>os.Mkdir\<close>: an existing path of any kind is \<^verbatim>\<open>EEXIST\<close>.\<close>

definition osMkdir :: "string \<Rightarrow> filesys \<Rightarrow> error option \<times> filesys" where
  "osMkdir p d =
     (if map_of (nodes d) p \<noteq> None then (Some Exist, d)
      else if p \<in> set (denied d) then (Some OtherIO, d)
      else (None, d\<lparr>nodes := AList.update p Dir (nodes d)\<rparr>))"

text \<open>\<^verbatim>\<open>os.Remove\<close>: removes a file or an empty directory.\<close>

definition osRemove :: "string \<Rightarrow> filesys \<Rightarrow> error option \<times> filesys" where
  "osRemove p d =
     (case map_of (nodes d) p of
        None \<Rightarrow> (Some NotExist, d)
      | Some n \<Rightarrow>
          (if p \<in> set (denied d) then (Some OtherIO, d)
           else if n = Dir \<and> hasEntries p d then (Some OtherIO, d)
           else (None, d\<lparr>nodes := AList.delete p (nodes d)\<rparr>)))"

text \<open>
  \<^verbatim>\<open>os.OpenFile(target, os.O_CREATE|os.O_WRONLY|os.O_TRUNC, mode)\<close>: a new file gets the
  mode (the process's umask is left out), an existing file is emptied and keeps its own.
\<close>

definition osOpenFile :: "string \<Rightarrow> nat \<Rightarrow> filesys \<Rightarrow> error option \<times> filesys" where
  "osOpenFile p mode d =
     (if p \<in> set (denied d) then (Some OtherIO, d)
      else (case map_of (nodes d) p of
              Some Dir \<Rightarrow> (Some OtherIO, d)
            | Some (File m c) \<Rightarrow> (None, d\<lparr>nodes := AList.update p (File m []) (nodes d)\<rparr>)
            | None \<Rightarrow> (None, d\<lparr>nodes := AList.update p (File mode []) (nodes d)\<rparr>)))"

text \<open>Writing through the open handle appends to the file at the handle's path.\<close>

definition osWrite :: "string \<Rightarrow> string \<Rightarrow> filesys \<Rightarrow> filesys" where
  "osWrite p out d =
     (case map_of (nodes d) p of
        Some (File m c) \<Rightarrow> d\<lparr>nodes := AList.update p (File m (c @ out)) (nodes d)\<rparr>
      | _ \<Rightarrow> d)"

text \<open>
  \<^verbatim>\<open>ioutil.ReadFile\<close>.
\<close>

definition ReadFile :: "string \<Rightarrow> filesys \<Rightarrow> error + string" where
  "ReadFile p d =
     (if p \<in> set (unreadable d) then Inl OtherIO
      else (case map_of (nodes d) p of
              Some (File m c) \<Rightarrow> Inr c
            | Some Dir \<Rightarrow> Inl OtherIO
            | None \<Rightarrow> Inl NotExist))"

text \<open>
  The content of the file at a path, when there is a file.
\<close>

definition contentAt :: "filesys \<Rightarrow> string \<Rightarrow> string option" where
  "contentAt d p = (case map_of (nodes d) p of Some (File m c) \<Rightarrow> Some c | _ \<Rightarrow> None)"

section \<open>Execute\<close>

text \<open>
  The regular expression \<^verbatim>\<open>\S\<close> matches every character but the five of Go's class
  \<^verbatim>\<open>\s\<close>: tab, newline, form feed, carriage return and space. \<^verbatim>\<open>isOnlyWhitespace\<close> is
  the negation of a match anywhere in the buffer. The five are single bytes and every
  other byte belongs to a character that matches, so the test can be made byte by byte.
\<close>

definition nonSpace :: "char \<Rightarrow> bool" where
  "nonSpace c = (c \<notin> {CHR 0x09, CHR 0x0A, CHR 0x0C, CHR 0x0D, CHR 0x20})"

definition isOnlyWhitespace :: "string \<Rightarrow> bool" where
  "isOnlyWhitespace buf = (\<not> list_ex nonSpace buf)"

text \<open>
  The template engine (\<^verbatim>\<open>text/template\<close> with the helper library) is a parameter: given
  the function table, the template text and the state of the user, it fails to parse
  (\<^verbatim>\<open>template.Must\<close> panics), or writes some output and then finishes or fails; calling
  bindings may change the state of the user. \<open>Unmodelled\<close> is for an engine that
  describes only part of the template language.
\<close>

datatype rendered = ParseFailed | Output string "error option" | Unmodelled

type_synonym engine = "funcmap \<Rightarrow> string \<Rightarrow> world \<Rightarrow> rendered \<times> world"

text \<open>
  One entry of the source tree as \<^verbatim>\<open>filepath.Walk\<close> hands it to the callback: its path
  relative to the template directory, whether it is a directory, its permission bits, its
  content, the error \<^verbatim>\<open>Walk\<close> met when it reached the entry, and the error of \<^verbatim>\<open>os.Lstat\<close>.
\<close>

record entry =
  relName :: string
  isDir :: bool
  perm :: nat
  body :: string
  walkErr :: "error option"
  lstatErr :: "error option"

record state =
  user :: world
  disk :: filesys
  logged :: "string list"

datatype result = Ok | Err error | Panicked | Undescribed

text \<open>
  The deferred function of the callback: it reads the file back and removes it when
  nothing but whitespace is in it. A failed read is logged; the result of the removal is
  dropped.
\<close>

definition prune :: "string \<Rightarrow> state \<Rightarrow> state" where
  "prune fname s =
     (case ReadFile fname (disk s) of
        Inl err \<Rightarrow> s\<lparr>logged := (''couldn't read the contents of file '' @ fname) # logged s\<rparr>
      | Inr contents \<Rightarrow>
          (if isOnlyWhitespace contents then s\<lparr>disk := snd (osRemove fname (disk s))\<rparr>
           else s))"

text \<open>
  The part of the callback that follows a successful \<^verbatim>\<open>os.OpenFile\<close>: the content
  template is parsed and executed into the file, a success is logged unless defaults are
  in use; on every way out, a panic included, the deferred \<open>prune\<close> runs.
\<close>

definition renderFile :: "engine \<Rightarrow> dirTemplate \<Rightarrow> entry \<Rightarrow> string \<Rightarrow> string \<Rightarrow> state \<Rightarrow> result \<times> state" where
  "renderFile E t e newName target s =
     (let (r, s') =
            (case E (FuncMap t) (body e) (user s) of
               (ParseFailed, w) \<Rightarrow> (Panicked, s\<lparr>user := w\<rparr>)
             | (Unmodelled, w) \<Rightarrow> (Undescribed, s\<lparr>user := w\<rparr>)
             | (Output out (Some err), w) \<Rightarrow>
                 (Err err, s\<lparr>user := w, disk := osWrite target out (disk s)\<rparr>)
             | (Output out None, w) \<Rightarrow>
                 (Ok, s\<lparr>user := w, disk := osWrite target out (disk s),
                         logged := (if ShouldUseDefaults t then logged s
                                   else (''Created '' @ newName) # logged s)\<rparr>))
      in (r, prune target s'))"

text \<open>
  The callback handed to \<^verbatim>\<open>filepath.Walk\<close>. \<open>join\<close> is \<^verbatim>\<open>filepath.Join\<close>. The entry
  carries its path relative to the template directory (\<^verbatim>\<open>filepath.Rel\<close> does not fail on
  a path that \<^verbatim>\<open>Walk\<close> made from the root). The name of the entry is itself rendered as
  a template, with \<^verbatim>\<open>nil\<close> as data; a directory is made, an existing one accepted; for a
  file the target is removed (a missing one accepted), created, and rendered.
\<close>

definition walkFn ::
  "engine \<Rightarrow> (string \<Rightarrow> string \<Rightarrow> string) \<Rightarrow> dirTemplate \<Rightarrow> string \<Rightarrow> entry \<Rightarrow> state \<Rightarrow>
   result \<times> state" where
  "walkFn E join t dirPrefix e s =
     (case walkErr e of
        Some err \<Rightarrow> (Err err, s)
      | None \<Rightarrow>
          (case E (FuncMap t) (relName e) (user s) of
             (ParseFailed, w) \<Rightarrow> (Panicked, s\<lparr>user := w\<rparr>)
           | (Unmodelled, w) \<Rightarrow> (Undescribed, s\<lparr>user := w\<rparr>)
           | (Output newName (Some err), w) \<Rightarrow> (Err err, s\<lparr>user := w\<rparr>)
           | (Output newName None, w) \<Rightarrow>
               (let target = join dirPrefix newName; s1 = s\<lparr>user := w\<rparr> in
                if isDir e then
                  (case osMkdir target (disk s1) of
                     (Some err, d) \<Rightarrow> (if err \<noteq> Exist then (Err err, s1) else (Ok, s1))
                   | (None, d) \<Rightarrow> (Ok, s1\<lparr>disk := d\<rparr>))
                else
                  (case lstatErr e of
                     Some err \<Rightarrow> (Err err, s1)
                   | None \<Rightarrow>
                       (case osRemove target (disk s1) of
                          (rmErr, d1) \<Rightarrow>
                            (case (case rmErr of
                                     Some err \<Rightarrow> (if err \<noteq> NotExist then Some err else None)
                                   | None \<Rightarrow> None) of
                               Some err \<Rightarrow> (Err err, s1)
                             | None \<Rightarrow>
                                 (case osOpenFile target (perm e) d1 of
                                    (Some err, d2) \<Rightarrow> (Err err, s1\<lparr>disk := d1\<rparr>)
                                  | (None, d2) \<Rightarrow>
                                      renderFile E t e newName target (s1\<lparr>disk := d2\<rparr>))))))))"

text \<open>\<^verbatim>\<open>filepath.Walk\<close> over the entries of the source tree: it stops at the first entry whose
  callback does not return nil.\<close>

fun Walk :: "(entry \<Rightarrow> state \<Rightarrow> result \<times> state) \<Rightarrow> entry list \<Rightarrow> state \<Rightarrow> result \<times> state" where
  "Walk fn [] s = (Ok, s)"
| "Walk fn (e # es) s =
     (case fn e s of
        (Ok, s') \<Rightarrow> Walk fn es s'
      | (r, s') \<Rightarrow> (r, s'))"

text \<open>
  \<^verbatim>\<open>Execute\<close>: bind, then walk. \<open>entries\<close> is the source tree under \<open>Path t\<close> in the order
  of the walk, read before the walk starts. The table the templates see is the
  package-level \<^verbatim>\<open>FuncMap\<close>; \<^verbatim>\<open>Get\<close> stores that very map in the template, so the bindings
  written through \<open>FuncMap t\<close> are in it.
\<close>

definition Execute ::
  "engine \<Rightarrow> (string \<Rightarrow> string \<Rightarrow> string) \<Rightarrow> entry list \<Rightarrow> dirTemplate \<Rightarrow> string \<Rightarrow> state \<Rightarrow>
   result \<times> state" where
  "Execute E join entries t dirPrefix s =
     Walk (walkFn E join (BindPrompts t) dirPrefix) entries s"

section \<open>A fragment of the template language\<close>

text \<open>
  For the examples, the part of \<^verbatim>\<open>text/template\<close> that they use: literal text, and actions
  \<^verbatim>\<open>{{name}}\<close> (a call of the function \<^verbatim>\<open>name\<close> without arguments) and \<^verbatim>\<open>{{.name}}\<close> (the
  field \<^verbatim>\<open>name\<close> of the data the template is executed with), blanks around the name
  allowed. Every other action is outside the fragment.
\<close>

datatype piece = Text string | FieldOf string | Call string | Other

text \<open>
  Identifiers of the template language, without the keywords and constants.
\<close>

definition isDigit :: "char \<Rightarrow> bool" where
  "isDigit c = (48 \<le> (of_char c :: nat) \<and> (of_char c :: nat) \<le> 57)"

definition identChar :: "char \<Rightarrow> bool" where
  "identChar c =
     (c = CHR ''_'' \<or> (97 \<le> (of_char c :: nat) \<and> (of_char c :: nat) \<le> 122)
      \<or> (65 \<le> (of_char c :: nat) \<and> (of_char c :: nat) \<le> 90) \<or> isDigit c)"

definition isIdent :: "string \<Rightarrow> bool" where
  "isIdent n =
     (case n of
        [] \<Rightarrow> False
      | c # cs \<Rightarrow>
          list_all identChar n \<and> \<not> isDigit c
          \<and> n \<notin> set [''block'', ''break'', ''continue'', ''define'', ''else'', ''end'', ''if'',
                        ''range'', ''nil'', ''template'', ''with'', ''true'', ''false''])"

text \<open>
  What stands between the delimiters of an action, without the blanks around it.
\<close>

definition trimBlanks :: "string \<Rightarrow> string" where
  "trimBlanks a = rev (dropWhile (\<lambda>c. c = CHR '' '') (rev (dropWhile (\<lambda>c. c = CHR '' '') a)))"

definition action :: "string \<Rightarrow> piece" where
  "action a =
     (let b = trimBlanks a in
      case b of
        [] \<Rightarrow> Other
      | c # n \<Rightarrow>
          (if c = CHR ''.'' \<and> isIdent n then FieldOf n
           else if isIdent b then Call b
           else Other))"

text \<open>
  The lexer: text up to the next \<^verbatim>\<open>{{\<close>, then an action up to the next \<^verbatim>\<open>}}\<close>. The flag
  says whether the scan is inside an action; \<open>acc\<close> holds what was read of the current
  piece, reversed. An action that is not closed is outside the fragment.
\<close>

fun scan :: "bool \<Rightarrow> string \<Rightarrow> string \<Rightarrow> piece list" where
  "scan False acc [] = [Text (rev acc)]"
| "scan False acc [c] = [Text (rev (c # acc))]"
| "scan False acc (c # d # cs) =
     (if c = CHR ''{'' \<and> d = CHR ''{'' then Text (rev acc) # scan True [] cs
      else scan False (c # acc) (d # cs))"
| "scan True acc [] = [Other]"
| "scan True acc [c] = [Other]"
| "scan True acc (c # d # cs) =
     (if c = CHR ''}'' \<and> d = CHR ''}'' then action (rev acc) # scan False [] cs
      else scan True (c # acc) (d # cs))"

text \<open>
  Printing the value an action yields: a string as it is, a boolean as \<^verbatim>\<open>true\<close> or
  \<^verbatim>\<open>false\<close>; the other values are outside the fragment.
\<close>

definition printValue :: "val \<Rightarrow> string option" where
  "printValue v =
     (case v of
        VStr s \<Rightarrow> Some s
      | VBool b \<Rightarrow> Some (if b then ''true'' else ''false'')
      | _ \<Rightarrow> None)"

text \<open>
  Execution with \<^verbatim>\<open>nil\<close> as data, which is what \<^verbatim>\<open>Execute\<close> passes. A field of \<^verbatim>\<open>nil\<close> data
  prints \<^verbatim>\<open><no value>\<close>, or is an error under the option \<^verbatim>\<open>missingkey=error\<close>; the option
  is the flag \<open>strict\<close>, as the package-level \<^verbatim>\<open>Options\<close> are not part of the sources at
  hand. A panic in a called function is recovered by the engine and becomes an error of
  the execution. \<open>acc\<close> is the output written so far.
\<close>

fun execPieces :: "bool \<Rightarrow> funcmap \<Rightarrow> piece list \<Rightarrow> string \<Rightarrow> world \<Rightarrow> rendered \<times> world" where
  "execPieces strict fm [] acc w = (Output acc None, w)"
| "execPieces strict fm (Text s # ps) acc w = execPieces strict fm ps (acc @ s) w"
| "execPieces strict fm (FieldOf n # ps) acc w =
     (if strict then (Output acc (Some ExecFailed), w)
      else execPieces strict fm ps (acc @ ''<no value>'') w)"
| "execPieces strict fm (Call n # ps) acc w =
     (case fm n of
        None \<Rightarrow> (Unmodelled, w)
      | Some b \<Rightarrow>
          (case invoke b w of
             (Value v, w') \<Rightarrow>
               (case printValue v of
                  None \<Rightarrow> (Unmodelled, w')
                | Some s \<Rightarrow> execPieces strict fm ps (acc @ s) w')
           | (Panic, w') \<Rightarrow> (Output acc (Some ExecFailed), w')
           | (Aborted, w') \<Rightarrow> (Output acc (Some InputAborted), w')
           | (Opaque, w') \<Rightarrow> (Unmodelled, w')))"
| "execPieces strict fm (Other # ps) acc w = (Unmodelled, w)"

text \<open>
  The engine of the fragment. A template with a piece outside the fragment, or with a
  call of a name the table does not have (a helper of the library, perhaps), is not
  described.
\<close>

definition goTemplate :: "bool \<Rightarrow> engine" where
  "goTemplate strict fm src w =
     (let ps = scan False [] src in
      if Other \<in> set ps \<or> (\<exists>n \<in> set ps. case n of Call f \<Rightarrow> fm f = None | _ \<Rightarrow> False)
      then (Unmodelled, w)
      else execPieces strict fm ps [] w)"

text \<open>\<^verbatim>\<open>filepath.Join\<close> of a clean directory and a clean relative name.\<close>

definition joinPath :: "string \<Rightarrow> string \<Rightarrow> string" where
  "joinPath d n = (if n = ''.'' then d else d @ ''/'' @ n)"

text \<open>A template with or without a template expression: does \<^verbatim>\<open>{{\<close> occur in the text?\<close>

fun hasOpen :: "string \<Rightarrow> bool" where
  "hasOpen (c # d # cs) = ((c = CHR ''{'' \<and> d = CHR ''{'') \<or> hasOpen (d # cs))"
| "hasOpen _ = False"

text \<open>
  States, entries and a context for the examples.
\<close>

definition emptyDisk :: filesys where
  "emptyDisk = \<lparr>nodes = [], denied = [], unreadable = []\<rparr>"

definition startState :: "answer list \<Rightarrow> filesys \<Rightarrow> state" where
  "startState ans d = \<lparr>user = fresh ans, disk = d, logged = []\<rparr>"

definition fileEntry :: "string \<Rightarrow> string \<Rightarrow> entry" where
  "fileEntry n c = \<lparr>relName = n, isDir = False, perm = 420, body = c, walkErr = None, lstatErr = None\<rparr>"

definition dirEntry :: "string \<Rightarrow> entry" where
  "dirEntry n = \<lparr>relName = n, isDir = True, perm = 493, body = [], walkErr = None, lstatErr = None\<rparr>"

definition greetingContext :: ctxmap where
  "greetingContext = [(''name'', VStr ''World'')]"



text \<open>
  A destination that holds the directory \<^verbatim>\<open>/out\<close> and nothing else.
\<close>

definition outDisk :: filesys where
  "outDisk = \<lparr>nodes = [(''/out'', Dir)], denied = [], unreadable = []\<rparr>"


text \<open>What a tree without template expressions leaves at the target of an entry.\<close>

definition expected :: "entry \<Rightarrow> node option" where
  "expected e =
     (if isDir e then Some Dir
      else if isOnlyWhitespace (body e) then None
      else Some (File (perm e) (body e)))"

text \<open>
  A source tree without template expressions; one of its files is empty.
\<close>

definition plainTree :: "entry list" where
  "plainTree =
     [dirEntry ''.'', fileEntry ''.gitkeep'' [], dirEntry ''src'',
      fileEntry ''src/main.go'' ''package main'']"



text \<open>
  \<^verbatim>\<open>Funcs\<close> panics when the table holds a name that is not an identifier: a letter or an
  underscore, then letters, digits and underscores.
\<close>

definition goodName :: "string \<Rightarrow> bool" where
  "goodName n = (case n of [] \<Rightarrow> False | c # cs \<Rightarrow> list_all identChar n \<and> \<not> isDigit c)"

text \<open>
  The engine of the fragment with that check. The table is a function, so the names to
  look at are given: the variables of the context. A name with a byte outside ASCII is
  not described.
\<close>

definition goFuncs :: "string list \<Rightarrow> bool \<Rightarrow> engine" where
  "goFuncs names strict fm src w =
     (let bound = filter (\<lambda>n. fm n \<noteq> None) names in
      if \<not> list_all (list_all (\<lambda>c. (of_char c :: nat) < 128)) bound then (Unmodelled, w)
      else if \<not> list_all goodName bound then (ParseFailed, w)
      else goTemplate strict fm src w)"

text \<open>
  A context with a name that is not an identifier; a destination with an old file where
  the sources have one; one with a file where the sources have a directory; one with a
  directory that is not empty where the sources have a file.
\<close>

definition badNameContext :: ctxmap where
  "badNameContext = [(''my-var'', VStr ''x'')]"

definition usedDisk :: filesys where
  "usedDisk =
     \<lparr>nodes = [(''/out'', Dir), (''/out/src/main.go'', File 384 ''package old // longer'')],
      denied = [], unreadable = []\<rparr>"

definition fileAtDirDisk :: filesys where
  "fileAtDirDisk = \<lparr>nodes = [(''/out/src'', File 420 ''x'')], denied = [], unreadable = []\<rparr>"

definition dirAtFileDisk :: filesys where
  "dirAtFileDisk =
     \<lparr>nodes = [(''/out/a.txt'', Dir), (''/out/a.txt/b'', File 420 ''y'')],
      denied = [], unreadable = []\<rparr>"



section \<open>Properties of binding\<close>

lemma foldl_upd_apply:
  "foldl (\<lambda>fm c. fm(c \<mapsto> F c)) fm cs n = (if n \<in> set cs then Some (F n) else fm n)"
  by (induction cs arbitrary: fm) auto

lemma handleBindDefaults_frame:
  "Context (handleBindDefaults t k) = Context t"
  "ShouldUseDefaults (handleBindDefaults t k) = ShouldUseDefaults t"
  by (auto simp: handleBindDefaults_def Let_def split: val.splits)

lemma handleBindPrompts_frame:
  "Context (handleBindPrompts t k) = Context t"
  "ShouldUseDefaults (handleBindPrompts t k) = ShouldUseDefaults t"
  by (auto simp: handleBindPrompts_def Let_def split: val.splits)

lemma handleBindDefaults_FuncMap:
  "FuncMap (handleBindDefaults t k) n =
     (case defaultsEntry k (mapIndex (Context t) k) n of Some b \<Rightarrow> Some b | None \<Rightarrow> FuncMap t n)"
  by (auto simp: handleBindDefaults_def defaultsEntry_def Let_def foldl_upd_apply split: val.splits)

lemma handleBindPrompts_FuncMap:
  "FuncMap (handleBindPrompts t k) n =
     (case promptsEntry k (mapIndex (Context t) k) n of Some b \<Rightarrow> Some b | None \<Rightarrow> FuncMap t n)"
  by (auto simp: handleBindPrompts_def promptsEntry_def Let_def foldl_upd_apply split: val.splits)

lemma bindStep_frame:
  "Context (bindStep t k) = Context t"
  "ShouldUseDefaults (bindStep t k) = ShouldUseDefaults t"
  by (simp_all add: bindStep_def handleBindDefaults_frame handleBindPrompts_frame)

lemma bindStep_FuncMap:
  "FuncMap (bindStep t k) n =
     (case entryOf (ShouldUseDefaults t) k (mapIndex (Context t) k) n of
        Some b \<Rightarrow> Some b | None \<Rightarrow> FuncMap t n)"
  by (simp add: bindStep_def entryOf_def handleBindDefaults_FuncMap handleBindPrompts_FuncMap)

lemma foldl_bindStep_frame:
  "Context (foldl bindStep t ks) = Context t \<and>
   ShouldUseDefaults (foldl bindStep t ks) = ShouldUseDefaults t"
  by (induction ks arbitrary: t) (simp_all add: bindStep_frame)

lemma foldl_bindStep_FuncMap:
  assumes "k \<in> set ks"
    and "entryOf (ShouldUseDefaults t) k (mapIndex (Context t) k) n = Some b"
    and "\<forall>k' \<in> set ks. k' \<noteq> k \<longrightarrow> entryOf (ShouldUseDefaults t) k' (mapIndex (Context t) k') n = None"
  shows "FuncMap (foldl bindStep t ks) n = Some b"
  using assms
proof (induction ks rule: rev_induct)
  case Nil
  then show ?case by simp
next
  case (snoc x xs)
  show ?case
  proof (cases "x = k")
    case True
    then show ?thesis using snoc.prems(2)
      by (simp add: bindStep_FuncMap foldl_bindStep_frame)
  next
    case False
    then have "k \<in> set xs" using snoc.prems(1) by simp
    moreover have "\<forall>k' \<in> set xs. k' \<noteq> k \<longrightarrow> entryOf (ShouldUseDefaults t) k' (mapIndex (Context t) k') n = None"
      using snoc.prems(3) by simp
    ultimately have "FuncMap (foldl bindStep t xs) n = Some b"
      using snoc.IH snoc.prems(2) by blast
    moreover have "entryOf (ShouldUseDefaults t) x (mapIndex (Context t) x) n = None"
      using snoc.prems(3) False by simp
    ultimately show ?thesis
      by (simp add: bindStep_FuncMap foldl_bindStep_frame)
  qed
qed

lemma BindPrompts_bindStep: "BindPrompts t = foldl bindStep t (map fst (Context t))"
  by (simp add: BindPrompts_def bindStep_def[abs_def])

lemma entryOf_names:
  "entryOf d k v n = Some b \<Longrightarrow> n \<in> set (k # childKeys v)"
  by (auto simp: entryOf_def defaultsEntry_def promptsEntry_def childKeys_def
           split: val.splits if_splits)

lemma variables_Cons:
  "variables ((k, v) # ctx) = (k # childKeys v) @ variables ctx"
  by (simp add: variables_def)

lemma names_in_variables:
  "(k, v) \<in> set ctx \<Longrightarrow> n \<in> set (k # childKeys v) \<Longrightarrow> n \<in> set (variables ctx)"
  by (induction ctx) (auto simp: variables_def)

lemma variables_distinct_keys:
  "distinct (variables ctx) \<Longrightarrow> distinct (map fst ctx)"
proof (induction ctx)
  case Nil
  then show ?case by simp
next
  case (Cons a ctx)
  obtain k v where a: "a = (k, v)" by (cases a)
  have d: "distinct (variables ctx)" and dj: "set (k # childKeys v) \<inter> set (variables ctx) = {}"
    using Cons.prems unfolding a variables_Cons by auto
  have "k \<notin> fst ` set ctx"
  proof
    assume "k \<in> fst ` set ctx"
    then obtain v' where "(k, v') \<in> set ctx" by auto
    then have "k \<in> set (variables ctx)" by (rule names_in_variables) simp
    then show False using dj by auto
  qed
  then show ?case using Cons.IH[OF d] a by simp
qed

lemma variables_mapIndex:
  "distinct (variables ctx) \<Longrightarrow> (k, v) \<in> set ctx \<Longrightarrow> mapIndex ctx k = v"
  by (simp add: mapIndex_def variables_distinct_keys)

lemma variables_disjoint:
  "distinct (variables ctx) \<Longrightarrow> (k, v) \<in> set ctx \<Longrightarrow> (k', v') \<in> set ctx \<Longrightarrow> k \<noteq> k' \<Longrightarrow>
   n \<in> set (k # childKeys v) \<Longrightarrow> n \<notin> set (k' # childKeys v')"
proof (induction ctx)
  case Nil
  then show ?case by simp
next
  case (Cons a ctx)
  obtain k0 v0 where a: "a = (k0, v0)" by (cases a)
  have d: "distinct (variables ctx)" and dj: "set (k0 # childKeys v0) \<inter> set (variables ctx) = {}"
    using Cons.prems(1) unfolding a variables_Cons by auto
  consider (both) "(k, v) \<in> set ctx" "(k', v') \<in> set ctx"
    | (first) "(k, v) = (k0, v0)" "(k', v') \<in> set ctx"
    | (second) "(k', v') = (k0, v0)" "(k, v) \<in> set ctx"
    using Cons.prems(2,3,4) a by auto
  then show ?case
  proof cases
    case both
    then show ?thesis using Cons.IH[OF d] Cons.prems(4,5) by blast
  next
    case first
    show ?thesis
    proof
      assume "n \<in> set (k' # childKeys v')"
      then have "n \<in> set (variables ctx)" using first(2) names_in_variables by blast
      then show False using dj Cons.prems(5) first(1) by auto
    qed
  next
    case second
    have "n \<in> set (variables ctx)" using second(2) Cons.prems(5) names_in_variables by blast
    then show ?thesis using dj second(1) by auto
  qed
qed

lemma BindPrompts_entry:
  assumes d: "distinct (variables (Context t))"
    and kv: "(k, v) \<in> set (Context t)"
    and e: "entryOf (ShouldUseDefaults t) k v n = Some b"
  shows "FuncMap (BindPrompts t) n = Some b"
proof -
  have k: "k \<in> set (map fst (Context t))" using kv by force
  have m: "mapIndex (Context t) k = v" using d kv by (rule variables_mapIndex)
  have n: "n \<in> set (k # childKeys v)" using e by (rule entryOf_names)
  have "\<forall>k' \<in> set (map fst (Context t)). k' \<noteq> k \<longrightarrow>
          entryOf (ShouldUseDefaults t) k' (mapIndex (Context t) k') n = None"
  proof (intro ballI impI)
    fix k' assume k': "k' \<in> set (map fst (Context t))" and ne: "k' \<noteq> k"
    then obtain v' where kv': "(k', v') \<in> set (Context t)" by auto
    have m': "mapIndex (Context t) k' = v'" using d kv' by (rule variables_mapIndex)
    have "n \<notin> set (k' # childKeys v')"
      using variables_disjoint[OF d kv kv' _ n] ne by blast
    then show "entryOf (ShouldUseDefaults t) k' (mapIndex (Context t) k') n = None"
      using entryOf_names[of "ShouldUseDefaults t" k' v' n] m'
      by (cases "entryOf (ShouldUseDefaults t) k' v' n") auto
  qed
  then show ?thesis
    unfolding BindPrompts_bindStep
    using foldl_bindStep_FuncMap[OF k] e m by simp
qed

lemma group_keys_distinct:
  assumes "distinct (variables ctx)" and "(k, VMap m) \<in> set ctx"
  shows "distinct (k # map fst m)"
  using assms
proof (induction ctx)
  case Nil
  then show ?case by simp
next
  case (Cons a ctx)
  obtain k0 v0 where a: "a = (k0, v0)" by (cases a)
  have d: "distinct (variables ctx)" and d0: "distinct (k0 # childKeys v0)"
    using Cons.prems(1) unfolding a variables_Cons by auto
  show ?case
  proof (cases "(k, VMap m) = (k0, v0)")
    case True
    then have "k0 = k" "v0 = VMap m" by simp_all
    then show ?thesis using d0 by (simp add: childKeys_def)
  next
    case False
    then have "(k, VMap m) \<in> set ctx" using Cons.prems(2) a by auto
    then show ?thesis using Cons.IH[OF d] by blast
  qed
qed

lemma defaults_scalar_entry:
  assumes "ShouldUseDefaults t" "distinct (variables (Context t))" "(k, v) \<in> set (Context t)"
    and "\<forall>m. v \<noteq> VMap m"
  shows "FuncMap (BindPrompts t) k = Some (DefaultOf v)"
proof -
  have "entryOf (ShouldUseDefaults t) k v k = Some (DefaultOf v)"
    using assms(1,4) by (cases v) (simp_all add: entryOf_def defaultsEntry_def)
  then show ?thesis using assms(2,3) by (rule BindPrompts_entry[rotated 2])
qed

lemma defaults_gate_entry:
  assumes "ShouldUseDefaults t" "distinct (variables (Context t))" "(k, VMap m) \<in> set (Context t)"
    and "m \<noteq> []"
  shows "FuncMap (BindPrompts t) k = Some ConstFalse"
proof -
  have "k \<notin> set (map fst m)" using group_keys_distinct[OF assms(2,3)] by simp
  then have "entryOf (ShouldUseDefaults t) k (VMap m) k = Some ConstFalse"
    using assms(1,4) by (simp add: entryOf_def defaultsEntry_def)
  then show ?thesis using assms(2,3) by (rule BindPrompts_entry[rotated 2])
qed

lemma defaults_child_entry:
  assumes "ShouldUseDefaults t" "distinct (variables (Context t))" "(k, VMap m) \<in> set (Context t)"
    and "(c, d) \<in> set m"
  shows "FuncMap (BindPrompts t) c = Some (DefaultOf d)"
proof -
  have "distinct (map fst m)" using group_keys_distinct[OF assms(2,3)] by simp
  then have "mapIndex m c = d" using assms(4) by (simp add: mapIndex_def)
  moreover have "c \<in> set (map fst m)" using assms(4) by force
  ultimately have "entryOf (ShouldUseDefaults t) k (VMap m) c = Some (DefaultOf d)"
    using assms(1) by (simp add: entryOf_def defaultsEntry_def)
  then show ?thesis using assms(2,3) by (rule BindPrompts_entry[rotated 2])
qed

lemma invoke_DefaultOf_scalar:
  "\<forall>xs. v \<noteq> VList xs \<Longrightarrow> invoke (DefaultOf v) w = (Value v, w)"
  by (cases v) simp_all

text \<open>
  C1 (as amended). In defaults-only mode, for a context whose variable names (top-level
  keys and group children together) are pairwise distinct, the table maps every variable
  to its declared default: a top-level scalar is returned as it is, a list with a first
  element yields that element, the gate of a group with a child yields false, and a child
  yields its own default (the first element of a list). No prompt is consulted: the
  world comes back unchanged.
\<close>

theorem defaults_table_declared_defaults:
  assumes "ShouldUseDefaults t"
    and "distinct (variables (Context t))"
    and "(k, v) \<in> set (Context t)"
  shows "((\<forall>m. v \<noteq> VMap m) \<and> (\<forall>xs. v \<noteq> VList xs) \<longrightarrow>
            call (FuncMap (BindPrompts t)) k w = Some (Value v, w))
       \<and> (\<forall>x xs. v = VList (x # xs) \<longrightarrow>
            call (FuncMap (BindPrompts t)) k w = Some (Value x, w))
       \<and> (\<forall>m. v = VMap m \<and> m \<noteq> [] \<longrightarrow>
            call (FuncMap (BindPrompts t)) k w = Some (Value (VBool False), w))
       \<and> (\<forall>m c d. v = VMap m \<and> (c, d) \<in> set m \<longrightarrow>
            ((\<forall>xs. d \<noteq> VList xs) \<longrightarrow>
               call (FuncMap (BindPrompts t)) c w = Some (Value d, w))
          \<and> (\<forall>x xs. d = VList (x # xs) \<longrightarrow>
               call (FuncMap (BindPrompts t)) c w = Some (Value x, w)))"
proof (intro conjI allI impI)
  assume "(\<forall>m. v \<noteq> VMap m) \<and> (\<forall>xs. v \<noteq> VList xs)"
  then show "call (FuncMap (BindPrompts t)) k w = Some (Value v, w)"
    using defaults_scalar_entry[OF assms] invoke_DefaultOf_scalar[of v w] by (simp add: call_def)
next
  fix x xs assume "v = VList (x # xs)"
  then show "call (FuncMap (BindPrompts t)) k w = Some (Value x, w)"
    using defaults_scalar_entry[OF assms] by (simp add: call_def)
next
  fix m assume "v = VMap m \<and> m \<noteq> []"
  then show "call (FuncMap (BindPrompts t)) k w = Some (Value (VBool False), w)"
    using defaults_gate_entry[OF assms(1,2)] assms(3) by (simp add: call_def)
next
  fix m c d assume h: "v = VMap m \<and> (c, d) \<in> set m" and "\<forall>xs. d \<noteq> VList xs"
  then show "call (FuncMap (BindPrompts t)) c w = Some (Value d, w)"
    using defaults_child_entry[OF assms(1,2), of k m c d] assms(3) invoke_DefaultOf_scalar[of d w]
    by (simp add: call_def)
next
  fix m c d x xs assume h: "v = VMap m \<and> (c, d) \<in> set m" and "d = VList (x # xs)"
  then show "call (FuncMap (BindPrompts t)) c w = Some (Value x, w)"
    using defaults_child_entry[OF assms(1,2), of k m c d] assms(3)
    by (simp add: call_def)
qed

lemma exampleContext_distinct: "distinct (variables exampleContext)"
  by (simp add: exampleContext_def variables_def childKeys_def)

theorem defaults_table_declared_defaults_witness:
  "call (FuncMap (BindPrompts (exampleTemplate True))) ''name'' (fresh []) =
     Some (Value (VStr ''app''), fresh [])
   \<and> call (FuncMap (BindPrompts (exampleTemplate True))) ''license'' (fresh []) =
     Some (Value (VStr ''MIT''), fresh [])
   \<and> call (FuncMap (BindPrompts (exampleTemplate True))) ''advanced'' (fresh []) =
     Some (Value (VBool False), fresh [])
   \<and> call (FuncMap (BindPrompts (exampleTemplate True))) ''port'' (fresh []) =
     Some (Value (VNum 8080), fresh [])
   \<and> call (FuncMap (BindPrompts (exampleTemplate True))) ''db'' (fresh []) =
     Some (Value (VStr ''pg''), fresh [])"
proof -
  have s: "ShouldUseDefaults (exampleTemplate True)"
    and d: "distinct (variables (Context (exampleTemplate True)))"
    by (simp_all add: exampleTemplate_def exampleContext_distinct)
  have k1: "(''name'', VStr ''app'') \<in> set (Context (exampleTemplate True))"
    and k2: "(''license'', VList [VStr ''MIT'', VStr ''GPL'']) \<in> set (Context (exampleTemplate True))"
    and k3: "(''advanced'', VMap [(''port'', VNum 8080), (''db'', VList [VStr ''pg'', VStr ''lite''])])
               \<in> set (Context (exampleTemplate True))"
    by (simp_all add: exampleTemplate_def exampleContext_def)
  show ?thesis
    using defaults_table_declared_defaults[OF s d k1, of "fresh []"]
      defaults_table_declared_defaults[OF s d k2, of "fresh []"]
      defaults_table_declared_defaults[OF s d k3, of "fresh []"]
    by simp
qed

text \<open>
  C1 as stated fails where two groups have a child of the same name: the table has one
  entry for the name, and it belongs to the group that \<^verbatim>\<open>range\<close> visits last. In either
  order of the two groups, one child does not get its own default.
\<close>

theorem defaults_table_clash_counterexample:
  "(''web'', VMap [(''port'', VNum 80)]) \<in> set (Context (templateOf clashContext True))
   \<and> call (FuncMap (BindPrompts (templateOf clashContext True))) ''port'' (fresh []) =
       Some (Value (VNum 5432), fresh [])
   \<and> (''db'', VMap [(''port'', VNum 5432)]) \<in> set (Context (templateOf (rev clashContext) True))
   \<and> call (FuncMap (BindPrompts (templateOf (rev clashContext) True))) ''port'' (fresh []) =
       Some (Value (VNum 80), fresh [])"
  by (simp add: templateOf_def clashContext_def BindPrompts_def handleBindDefaults_def
      mapIndex_def call_def)

section \<open>The user, the memo cells and the gate\<close>

lemma defaults_child_step:
  "mapIndex (Context t) k = VMap m \<Longrightarrow> c \<in> set (map fst m) \<Longrightarrow>
   FuncMap (handleBindDefaults t k) c = Some (DefaultOf (mapIndex m c))"
  by (simp add: handleBindDefaults_FuncMap defaultsEntry_def)

lemma defaults_top_step:
  "\<forall>m. mapIndex (Context t) k \<noteq> VMap m \<Longrightarrow>
   FuncMap (handleBindDefaults t k) k = Some (DefaultOf (mapIndex (Context t) k))"
  by (cases "mapIndex (Context t) k") (simp_all add: handleBindDefaults_FuncMap defaultsEntry_def)

text \<open>
  C10. A binding built in defaults-only mode for an empty list panics when it is called:
  the closure indexes the slice at 0 without looking at its length. This holds for the
  entry \<^verbatim>\<open>handleBindDefaults\<close> stores (top-level key or group child), and for the entry of
  the finished table when no other variable has the same name.
\<close>

theorem empty_list_default_panics:
  "(mapIndex (Context t) k = VList [] \<longrightarrow>
      call (FuncMap (handleBindDefaults t k)) k w = Some (Panic, w))
   \<and> (\<forall>m c. mapIndex (Context t) k = VMap m \<and> c \<in> set (map fst m) \<and> mapIndex m c = VList [] \<longrightarrow>
      call (FuncMap (handleBindDefaults t k)) c w = Some (Panic, w))
   \<and> (ShouldUseDefaults t \<and> distinct (variables (Context t)) \<and> (k, v) \<in> set (Context t) \<longrightarrow>
        (v = VList [] \<longrightarrow> call (FuncMap (BindPrompts t)) k w = Some (Panic, w))
      \<and> (\<forall>m c. v = VMap m \<and> (c, VList []) \<in> set m \<longrightarrow>
           call (FuncMap (BindPrompts t)) c w = Some (Panic, w)))"
proof (intro conjI allI impI)
  assume h: "mapIndex (Context t) k = VList []"
  then have "\<forall>m. mapIndex (Context t) k \<noteq> VMap m" by simp
  from defaults_top_step[OF this] h
  show "call (FuncMap (handleBindDefaults t k)) k w = Some (Panic, w)"
    by (simp add: call_def)
next
  fix m c
  assume "mapIndex (Context t) k = VMap m \<and> c \<in> set (map fst m) \<and> mapIndex m c = VList []"
  then show "call (FuncMap (handleBindDefaults t k)) c w = Some (Panic, w)"
    using defaults_child_step[of t k m c] by (simp add: call_def)
next
  assume a: "ShouldUseDefaults t \<and> distinct (variables (Context t)) \<and> (k, v) \<in> set (Context t)"
    and v: "v = VList []"
  then show "call (FuncMap (BindPrompts t)) k w = Some (Panic, w)"
    using defaults_scalar_entry[of t k v] by (simp add: call_def)
next
  fix m c
  assume a: "ShouldUseDefaults t \<and> distinct (variables (Context t)) \<and> (k, v) \<in> set (Context t)"
    and v: "v = VMap m \<and> (c, VList []) \<in> set m"
  then show "call (FuncMap (BindPrompts t)) c w = Some (Panic, w)"
    using defaults_child_entry[of t k m c "VList []"] by (simp add: call_def)
qed

theorem empty_list_default_panics_witness:
  "call (FuncMap (handleBindDefaults (templateOf emptyListContext True) ''license'')) ''license''
      (fresh []) = Some (Panic, fresh [])
   \<and> call (FuncMap (handleBindDefaults (templateOf emptyListContext True) ''advanced'')) ''db''
      (fresh []) = Some (Panic, fresh [])
   \<and> call (FuncMap (BindPrompts (templateOf emptyListContext True))) ''license'' (fresh []) =
      Some (Panic, fresh [])
   \<and> call (FuncMap (BindPrompts (templateOf emptyListContext True))) ''db'' (fresh []) =
      Some (Panic, fresh [])"
proof -
  let ?t = "templateOf emptyListContext True"
  have m1: "mapIndex (Context ?t) ''license'' = VList []"
    and m2: "mapIndex (Context ?t) ''advanced'' = VMap [(''db'', VList [])]"
    and m3: "mapIndex [(''db'', VList [])] ''db'' = VList []"
    and s: "ShouldUseDefaults ?t"
    and d: "distinct (variables (Context ?t))"
    and k1: "(''license'', VList []) \<in> set (Context ?t)"
    and k2: "(''advanced'', VMap [(''db'', VList [])]) \<in> set (Context ?t)"
    by (simp_all add: templateOf_def emptyListContext_def mapIndex_def variables_def childKeys_def)
  show ?thesis
    using empty_list_default_panics[of ?t "''license''" "fresh []" "VList []"]
      empty_list_default_panics[of ?t "''advanced''" "fresh []" "VMap [(''db'', VList [])]"]
      m1 m2 m3 s d k1 k2
    by simp
qed

text \<open>
  C2, the code at the failing input: in interactive mode, with the group
  \<^verbatim>\<open>{"advanced": {"db": ["pg", "lite"]}}\<close> and a user who declines advanced mode, the child
  \<^verbatim>\<open>db\<close> resolves to the whole list, not to its first element. Only the gate was asked.
\<close>

theorem gate_false_child_yields_whole_list:
  "call (FuncMap (BindPrompts (templateOf listChildContext False))) ''db''
      (fresh [Reply (VBool False)]) =
   Some (Value (VList [VStr ''pg'', VStr ''lite'']),
         \<lparr>cache = [(Prompt (GateCell ''advanced'') ''advanced'' (VBool False), VBool False)],
          asked = [Prompt (GateCell ''advanced'') ''advanced'' (VBool False)],
          input = []\<rparr>)"
  by (simp add: templateOf_def listChildContext_def BindPrompts_def handleBindPrompts_def
      mapIndex_def call_def ask_def fresh_def Let_def)

text \<open>
  The rest of the child closure: in interactive mode the entry of a group child is
  the closure over its declared value, its own prompt and the gate of its group; a call
  asks the gate first, goes on to the child's prompt when the gate is true, and returns
  the declared value as it is when the gate is false.
\<close>

lemma interactive_child_entry:
  assumes "\<not> ShouldUseDefaults t" and "distinct (variables (Context t))"
    and "(k, VMap m) \<in> set (Context t)" and "(c, d) \<in> set m"
  shows "FuncMap (BindPrompts t) c =
           Some (ChildFn d (Prompt (ChildCell k c) c d) (Prompt (GateCell k) k (VBool False)))"
proof -
  have "distinct (map fst m)" using group_keys_distinct[OF assms(2,3)] by simp
  then have "mapIndex m c = d" using assms(4) by (simp add: mapIndex_def)
  moreover have "c \<in> set (map fst m)" using assms(4) by force
  ultimately have "entryOf (ShouldUseDefaults t) k (VMap m) c =
      Some (ChildFn d (Prompt (ChildCell k c) c d) (Prompt (GateCell k) k (VBool False)))"
    using assms(1) by (simp add: entryOf_def promptsEntry_def)
  then show ?thesis using assms(2,3) by (rule BindPrompts_entry[rotated 2])
qed

lemma interactive_child_call:
  assumes "\<not> ShouldUseDefaults t" and "distinct (variables (Context t))"
    and "(k, VMap m) \<in> set (Context t)" and "(c, d) \<in> set m"
    and "ask (Prompt (GateCell k) k (VBool False)) w = (Value (VBool g), w')"
  shows "call (FuncMap (BindPrompts t)) c w =
           Some (if g then ask (Prompt (ChildCell k c) c d) w' else (Value d, w'))"
  using interactive_child_entry[OF assms(1-4)] assms(5) by (simp add: call_def)

lemma ask_cached: "map_of (cache w) p = Some r \<Longrightarrow> ask p w = (Value r, w)"
  by (simp add: ask_def)

lemma ask_Value_cached: "ask p w = (Value r, w') \<Longrightarrow> map_of (cache w') p = Some r"
  by (auto simp: ask_def split: option.splits list.splits answer.splits)

lemma ask_extends: "ask p w = (x, w') \<Longrightarrow> extends w w'"
  by (auto simp: ask_def extends_def split: option.splits list.splits answer.splits)

lemma extends_refl: "extends w w"
  by (simp add: extends_def)

lemma extends_trans: "extends w w' \<Longrightarrow> extends w' w'' \<Longrightarrow> extends w w''"
  by (simp add: extends_def)

lemma invoke_extends: "invoke b w = (x, w') \<Longrightarrow> extends w w'"
proof (cases b)
  case (ChildFn v p a)
  assume i: "invoke b w = (x, w')"
  obtain r1 w1 where a: "ask a w = (r1, w1)" by (cases "ask a w")
  have e1: "extends w w1" using a by (rule ask_extends)
  show ?thesis
  proof (cases "r1 = Value (VBool True)")
    case True
    then have "ask p w1 = (x, w')" using i a ChildFn by simp
    then have "extends w1 w'" by (rule ask_extends)
    with e1 show ?thesis by (rule extends_trans)
  next
    case False
    then have "w' = w1" using i a ChildFn
      by (auto split: outcome.splits val.splits if_splits)
    with e1 show ?thesis by simp
  qed
qed (auto simp: extends_refl ask_extends split: val.splits list.splits)

lemma run_extends: "extends w (run fm ns w)"
proof (induction ns arbitrary: w)
  case Nil
  show ?case by (simp add: extends_refl)
next
  case (Cons n ns)
  show ?case
  proof (cases "fm n")
    case None
    then show ?thesis using Cons.IH by (simp add: call_def)
  next
    case (Some b)
    obtain r w' where i: "invoke b w = (r, w')" by (cases "invoke b w")
    have "extends w w'" using i by (rule invoke_extends)
    moreover have "extends w' (run fm ns w')" by (rule Cons.IH)
    ultimately show ?thesis using Some i by (simp add: call_def extends_trans)
  qed
qed

lemma invoke_stable:
  assumes "invoke b w = (Value r, w1)" and "extends w1 w2"
  shows "invoke b w2 = (Value r, w2)"
proof (cases b)
  case ConstFalse
  then show ?thesis using assms by simp
next
  case (DefaultOf v)
  then show ?thesis using assms by (auto split: val.splits list.splits)
next
  case (GateFn a)
  then have "map_of (cache w1) a = Some r" using assms(1) by (simp add: ask_Value_cached)
  then have "map_of (cache w2) a = Some r" using assms(2) by (simp add: extends_def)
  then show ?thesis using GateFn by (simp add: ask_cached)
next
  case (PromptFn p)
  then have "map_of (cache w1) p = Some r" using assms(1) by (simp add: ask_Value_cached)
  then have "map_of (cache w2) p = Some r" using assms(2) by (simp add: extends_def)
  then show ?thesis using PromptFn by (simp add: ask_cached)
next
  case Helper
  then show ?thesis using assms by simp
next
  case (ChildFn v p a)
  obtain r1 w' where a: "ask a w = (r1, w')" by (cases "ask a w")
  from assms(1) ChildFn a obtain g where r1: "r1 = Value (VBool g)"
    by (auto split: outcome.splits val.splits)
  have ca: "map_of (cache w') a = Some (VBool g)" using a r1 by (simp add: ask_Value_cached)
  show ?thesis
  proof (cases g)
    case True
    then have p: "ask p w' = (Value r, w1)" using assms(1) ChildFn a r1 by simp
    have "extends w' w1" using p by (rule ask_extends)
    then have "map_of (cache w2) a = Some (VBool True)"
      using ca True assms(2) by (simp add: extends_def)
    moreover have "map_of (cache w2) p = Some r"
      using ask_Value_cached[OF p] assms(2) by (simp add: extends_def)
    ultimately show ?thesis using ChildFn by (simp add: ask_cached)
  next
    case False
    then have "w1 = w'" "r = v" using assms(1) ChildFn a r1 by simp_all
    then have "map_of (cache w2) a = Some (VBool False)"
      using ca False assms(2) by (simp add: extends_def)
    then show ?thesis using ChildFn \<open>r = v\<close> by (simp add: ask_cached)
  qed
qed

lemma bindStep_keeps: "FuncMap t n \<noteq> None \<Longrightarrow> FuncMap (bindStep t k) n \<noteq> None"
  by (simp add: bindStep_FuncMap split: option.splits)

lemma foldl_bindStep_keeps: "FuncMap t n \<noteq> None \<Longrightarrow> FuncMap (foldl bindStep t ks) n \<noteq> None"
proof (induction ks arbitrary: t)
  case Nil
  then show ?case by simp
next
  case (Cons x xs)
  have "FuncMap (bindStep t x) n \<noteq> None" using Cons.prems by (rule bindStep_keeps)
  then show ?case using Cons.IH[of "bindStep t x"] by simp
qed

lemma foldl_bindStep_written:
  assumes "k \<in> set ks" and "entryOf (ShouldUseDefaults t) k (mapIndex (Context t) k) n \<noteq> None"
  shows "FuncMap (foldl bindStep t ks) n \<noteq> None"
  using assms
proof (induction ks arbitrary: t)
  case Nil
  then show ?case by simp
next
  case (Cons x xs)
  show ?case
  proof (cases "x = k")
    case True
    have "FuncMap (bindStep t k) n \<noteq> None"
      using Cons.prems(2) by (auto simp: bindStep_FuncMap)
    then show ?thesis using True by (simp add: foldl_bindStep_keeps)
  next
    case False
    then have "k \<in> set xs" using Cons.prems(1) by simp
    then show ?thesis using Cons.IH[of "bindStep t x"] Cons.prems(2)
      by (simp add: bindStep_frame)
  qed
qed

lemma entryOf_key: "v \<noteq> VMap [] \<Longrightarrow> entryOf d k v k \<noteq> None"
  by (cases v) (auto simp: entryOf_def defaultsEntry_def promptsEntry_def)

lemma entryOf_child: "c \<in> set (childKeys v) \<Longrightarrow> entryOf d k v c \<noteq> None"
  by (cases v) (auto simp: entryOf_def defaultsEntry_def promptsEntry_def childKeys_def)

text \<open>
  C8 (as amended). Every top-level key whose value is not a group without children, and
  every child key of a group, has exactly one entry in the table. A call of an entry that
  returned a value returns the same value at any later point of the render, and changes
  nothing then: the prompt is not asked again.
\<close>

theorem bound_names_have_stable_bindings:
  assumes "map_of (Context t) k = Some v"
  shows "(v \<noteq> VMap [] \<longrightarrow> (\<exists>!b. FuncMap (BindPrompts t) k = Some b))
       \<and> (\<forall>c \<in> set (childKeys v). \<exists>!b. FuncMap (BindPrompts t) c = Some b)
       \<and> (\<forall>b. FuncMap (BindPrompts t) n = Some b \<and> invoke b w = (Value r, w1) \<longrightarrow>
            invoke b (run (FuncMap (BindPrompts t)) ns w1) =
              (Value r, run (FuncMap (BindPrompts t)) ns w1))"
proof (intro conjI impI ballI allI)
  have k: "k \<in> set (map fst (Context t))" using map_of_SomeD[OF assms] by force
  have m: "mapIndex (Context t) k = v" using assms by (simp add: mapIndex_def)
  {
    assume "v \<noteq> VMap []"
    then have "entryOf (ShouldUseDefaults t) k (mapIndex (Context t) k) k \<noteq> None"
      using m by (simp add: entryOf_key)
    then have "FuncMap (BindPrompts t) k \<noteq> None"
      unfolding BindPrompts_bindStep using k by (rule foldl_bindStep_written[rotated])
    then show "\<exists>!b. FuncMap (BindPrompts t) k = Some b" by auto
  }
  {
    fix c assume "c \<in> set (childKeys v)"
    then have "entryOf (ShouldUseDefaults t) k (mapIndex (Context t) k) c \<noteq> None"
      using m by (simp add: entryOf_child)
    then have "FuncMap (BindPrompts t) c \<noteq> None"
      unfolding BindPrompts_bindStep using k by (rule foldl_bindStep_written[rotated])
    then show "\<exists>!b. FuncMap (BindPrompts t) c = Some b" by auto
  }
  {
    fix b assume "FuncMap (BindPrompts t) n = Some b \<and> invoke b w = (Value r, w1)"
    then have "invoke b w = (Value r, w1)" by simp
    then show "invoke b (run (FuncMap (BindPrompts t)) ns w1) =
                (Value r, run (FuncMap (BindPrompts t)) ns w1)"
      using run_extends by (rule invoke_stable)
  }
qed

text \<open>
  C8 as stated fails for the key of a group without children: the gate is stored only
  when the group has a child, so the key has no entry, in either mode.
\<close>

theorem empty_group_key_unbound_counterexample:
  "map_of (Context (templateOf emptyGroupContext False)) ''advanced'' = Some (VMap [])
   \<and> FuncMap (BindPrompts (templateOf emptyGroupContext False)) ''advanced'' = None
   \<and> FuncMap (BindPrompts (templateOf emptyGroupContext True)) ''advanced'' = None"
  by (simp add: templateOf_def emptyGroupContext_def BindPrompts_def handleBindPrompts_def
      handleBindDefaults_def mapIndex_def Let_def)

lemma entryOf_wellFormed: "entryOf d k v n = Some b \<Longrightarrow> wellFormed b"
  by (cases v) (auto simp: entryOf_def defaultsEntry_def promptsEntry_def split: if_splits)

lemma bindStep_wellFormed:
  "\<forall>n b. FuncMap t n = Some b \<longrightarrow> wellFormed b \<Longrightarrow>
   \<forall>n b. FuncMap (bindStep t k) n = Some b \<longrightarrow> wellFormed b"
  by (auto simp: bindStep_FuncMap entryOf_wellFormed split: option.splits)

lemma foldl_bindStep_wellFormed:
  "\<forall>n b. FuncMap t n = Some b \<longrightarrow> wellFormed b \<Longrightarrow>
   \<forall>n b. FuncMap (foldl bindStep t ks) n = Some b \<longrightarrow> wellFormed b"
proof (induction ks arbitrary: t)
  case Nil
  then show ?case by simp
next
  case (Cons x xs)
  have "\<forall>n b. FuncMap (bindStep t x) n = Some b \<longrightarrow> wellFormed b"
    using Cons.prems by (rule bindStep_wellFormed)
  then show ?case using Cons.IH[of "bindStep t x"] by simp
qed

lemma gated_fresh: "gated (fresh ans)"
  by (simp add: gated_def fresh_def)

lemma ask_gated:
  assumes "gated w"
    and "case cellOf p of
           ChildCell g c \<Rightarrow> map_of (cache w) (Prompt (GateCell g) g (VBool False)) = Some (VBool True)
         | _ \<Rightarrow> True"
    and "ask p w = (x, w')"
  shows "gated w'"
proof (cases "w' = w")
  case True
  then show ?thesis using assms(1) by simp
next
  case False
  then have n: "map_of (cache w) p = None" using assms(3)
    by (auto simp: ask_def split: option.splits)
  have a: "asked w' = p # asked w" using assms(3) n
    by (auto simp: ask_def split: list.splits answer.splits)
  have e: "extends w w'" using assms(3) by (rule ask_extends)
  have "\<And>q. (case cellOf q of
           ChildCell g c \<Rightarrow> map_of (cache w) (Prompt (GateCell g) g (VBool False)) = Some (VBool True)
         | _ \<Rightarrow> True) \<Longrightarrow>
        (case cellOf q of
           ChildCell g c \<Rightarrow> map_of (cache w') (Prompt (GateCell g) g (VBool False)) = Some (VBool True)
         | _ \<Rightarrow> True)"
    using e by (auto simp: extends_def split: cell.splits)
  then show ?thesis using assms(1,2) a
    by (simp add: gated_def list_all_iff)
qed

lemma invoke_gated:
  assumes "wellFormed b" and "gated w" and "invoke b w = (x, w')"
  shows "gated w'"
proof (cases b)
  case ConstFalse
  then show ?thesis using assms by simp
next
  case (DefaultOf v)
  then show ?thesis using assms by (auto split: val.splits list.splits)
next
  case Helper
  then show ?thesis using assms by simp
next
  case (GateFn a)
  then have "case cellOf a of ChildCell g c \<Rightarrow>
               map_of (cache w) (Prompt (GateCell g) g (VBool False)) = Some (VBool True)
             | _ \<Rightarrow> True"
    using assms(1) by (cases a rule: cellOf.cases) (auto split: cell.splits)
  then show ?thesis using assms(2,3) GateFn ask_gated[of w a x w'] by simp
next
  case (PromptFn p)
  then have "case cellOf p of ChildCell g c \<Rightarrow>
               map_of (cache w) (Prompt (GateCell g) g (VBool False)) = Some (VBool True)
             | _ \<Rightarrow> True"
    using assms(1) by (cases p rule: cellOf.cases) (auto split: cell.splits)
  then show ?thesis using assms(2,3) PromptFn ask_gated[of w p x w'] by simp
next
  case (ChildFn v p a)
  from assms(1) ChildFn obtain g c n d where
    p: "p = Prompt (ChildCell g c) n d" and a: "a = Prompt (GateCell g) g (VBool False)"
    by (cases "ChildFn v p a" rule: wellFormed.cases) auto
  obtain r1 w1 where k: "ask a w = (r1, w1)" by (cases "ask a w")
  have g1: "gated w1" using assms(2) _ k by (rule ask_gated) (simp add: a)
  show ?thesis
  proof (cases "r1 = Value (VBool True)")
    case True
    then have c: "map_of (cache w1) a = Some (VBool True)" using k by (simp add: ask_Value_cached)
    have q: "ask p w1 = (x, w')" using assms(3) ChildFn k True by simp
    have "case cellOf p of
            ChildCell g c \<Rightarrow> map_of (cache w1) (Prompt (GateCell g) g (VBool False)) = Some (VBool True)
          | _ \<Rightarrow> True"
      using c by (simp add: p a)
    with g1 show ?thesis using q by (rule ask_gated)
  next
    case False
    then have "w' = w1" using assms(3) ChildFn k
      by (auto split: outcome.splits val.splits if_splits)
    then show ?thesis using g1 by simp
  qed
qed

lemma run_gated:
  assumes "\<forall>n b. fm n = Some b \<longrightarrow> wellFormed b" and "gated w"
  shows "gated (run fm ns w)"
  using assms(2)
proof (induction ns arbitrary: w)
  case Nil
  then show ?case by simp
next
  case (Cons n ns)
  show ?case
  proof (cases "fm n")
    case None
    then show ?thesis using Cons by (simp add: call_def)
  next
    case (Some b)
    obtain r w' where i: "invoke b w = (r, w')" by (cases "invoke b w")
    have "wellFormed b" using assms(1) Some by simp
    then have "gated w'" using Cons.prems i by (rule invoke_gated)
    then have "gated (run fm ns w')" by (rule Cons.IH)
    then show ?thesis using Some i by (simp add: call_def)
  qed
qed

lemma child_gate_false_step:
  "ask a w = (Value (VBool False), w') \<Longrightarrow> invoke (ChildFn v p a) w = (Value v, w')"
  by simp

text \<open>
  C7. In interactive mode, in a render that starts with empty memo cells, if the gate of
  a group has resolved to false then no prompt of a child of that group was put to the
  user.
\<close>

theorem gate_false_no_child_prompt:
  assumes "\<not> ShouldUseDefaults t"
    and "\<forall>n b. FuncMap t n = Some b \<longrightarrow> b = Helper"
    and "map_of (cache (run (FuncMap (BindPrompts t)) ns (fresh ans)))
           (Prompt (GateCell g) g (VBool False)) = Some (VBool False)"
  shows "\<forall>p \<in> set (asked (run (FuncMap (BindPrompts t)) ns (fresh ans))).
           \<forall>c. cellOf p \<noteq> ChildCell g c"
proof -
  have "\<forall>n b. FuncMap t n = Some b \<longrightarrow> wellFormed b"
  proof (intro allI impI)
    fix n b assume "FuncMap t n = Some b"
    then have "b = Helper" using assms(2) by blast
    then show "wellFormed b" by simp
  qed
  then have "\<forall>n b. FuncMap (BindPrompts t) n = Some b \<longrightarrow> wellFormed b"
    unfolding BindPrompts_bindStep by (rule foldl_bindStep_wellFormed)
  then have "gated (run (FuncMap (BindPrompts t)) ns (fresh ans))"
    using gated_fresh by (rule run_gated)
  then show ?thesis using assms(3)
    by (auto simp: gated_def list_all_iff split: cell.splits)
qed

lemma exampleTemplate_prompts_table:
  "FuncMap (BindPrompts (exampleTemplate False)) =
     [''env'' \<mapsto> Helper,
      ''name'' \<mapsto> PromptFn (Prompt (TopCell ''name'') ''name'' (VStr ''app'')),
      ''license'' \<mapsto> PromptFn (Prompt (TopCell ''license'') ''license''
                        (VList [VStr ''MIT'', VStr ''GPL''])),
      ''advanced'' \<mapsto> GateFn (Prompt (GateCell ''advanced'') ''advanced'' (VBool False)),
      ''port'' \<mapsto> ChildFn (VNum 8080) (Prompt (ChildCell ''advanced'' ''port'') ''port'' (VNum 8080))
                     (Prompt (GateCell ''advanced'') ''advanced'' (VBool False)),
      ''db'' \<mapsto> ChildFn (VList [VStr ''pg'', VStr ''lite''])
                   (Prompt (ChildCell ''advanced'' ''db'') ''db'' (VList [VStr ''pg'', VStr ''lite'']))
                   (Prompt (GateCell ''advanced'') ''advanced'' (VBool False))]"
  by (simp add: exampleTemplate_def exampleContext_def BindPrompts_def handleBindPrompts_def
      mapIndex_def Let_def)

lemma example_run_gate_false:
  "run (FuncMap (BindPrompts (exampleTemplate False)))
       [''advanced'', ''port'', ''db'', ''name'', ''port'']
       (fresh [Reply (VBool False), Reply (VStr ''demo'')]) =
   \<lparr>cache = [(Prompt (TopCell ''name'') ''name'' (VStr ''app''), VStr ''demo''),
             (Prompt (GateCell ''advanced'') ''advanced'' (VBool False), VBool False)],
    asked = [Prompt (TopCell ''name'') ''name'' (VStr ''app''),
             Prompt (GateCell ''advanced'') ''advanced'' (VBool False)],
    input = []\<rparr>"
  by (simp add: exampleTemplate_prompts_table call_def ask_def fresh_def)

theorem gate_false_no_child_prompt_witness:
  "list_all (\<lambda>p. cellOf p \<noteq> ChildCell ''advanced'' ''port'' \<and> cellOf p \<noteq> ChildCell ''advanced'' ''db'')
     (asked (run (FuncMap (BindPrompts (exampleTemplate False)))
              [''advanced'', ''port'', ''db'', ''name'', ''port'']
              (fresh [Reply (VBool False), Reply (VStr ''demo'')])))
   \<and> length (asked (run (FuncMap (BindPrompts (exampleTemplate False)))
              [''advanced'', ''port'', ''db'', ''name'', ''port'']
              (fresh [Reply (VBool False), Reply (VStr ''demo'')]))) = 2"
proof -
  let ?t = "exampleTemplate False"
  let ?ns = "[''advanced'', ''port'', ''db'', ''name'', ''port'']"
  let ?ans = "[Reply (VBool False), Reply (VStr ''demo'')]"
  have a1: "\<not> ShouldUseDefaults ?t" by (simp add: exampleTemplate_def)
  have a2: "\<forall>n b. FuncMap ?t n = Some b \<longrightarrow> b = Helper"
    by (simp add: exampleTemplate_def)
  have a3: "map_of (cache (run (FuncMap (BindPrompts ?t)) ?ns (fresh ?ans)))
              (Prompt (GateCell ''advanced'') ''advanced'' (VBool False)) = Some (VBool False)"
    unfolding example_run_gate_false by simp
  have "\<forall>p \<in> set (asked (run (FuncMap (BindPrompts ?t)) ?ns (fresh ?ans))).
           \<forall>c. cellOf p \<noteq> ChildCell ''advanced'' c"
    using a1 a2 a3 by (rule gate_false_no_child_prompt)
  then have "list_all (\<lambda>p. cellOf p \<noteq> ChildCell ''advanced'' ''port'' \<and> cellOf p \<noteq> ChildCell ''advanced'' ''db'')
     (asked (run (FuncMap (BindPrompts ?t)) ?ns (fresh ?ans)))"
    by (simp add: list_all_iff)
  moreover have "length (asked (run (FuncMap (BindPrompts ?t)) ?ns (fresh ?ans))) = 2"
    unfolding example_run_gate_false by simp
  ultimately show ?thesis by simp
qed

lemma example_port_gate_true:
  "invoke (ChildFn (VNum 8080) (Prompt (ChildCell ''advanced'' ''port'') ''port'' (VNum 8080))
                     (Prompt (GateCell ''advanced'') ''advanced'' (VBool False)))
     (fresh [Reply (VBool True), Reply (VNum 9090), Reply (VStr ''demo'')]) =
   (Value (VNum 9090),
    \<lparr>cache = [(Prompt (ChildCell ''advanced'' ''port'') ''port'' (VNum 8080), VNum 9090),
              (Prompt (GateCell ''advanced'') ''advanced'' (VBool False), VBool True)],
     asked = [Prompt (ChildCell ''advanced'' ''port'') ''port'' (VNum 8080),
              Prompt (GateCell ''advanced'') ''advanced'' (VBool False)],
     input = [Reply (VStr ''demo'')]\<rparr>)"
  by (simp add: ask_def fresh_def)

theorem bound_names_have_stable_bindings_witness:
  "(\<exists>!b. FuncMap (BindPrompts (exampleTemplate False)) ''advanced'' = Some b)
   \<and> (\<exists>!b. FuncMap (BindPrompts (exampleTemplate False)) ''port'' = Some b)
   \<and> (\<exists>!b. FuncMap (BindPrompts (exampleTemplate False)) ''db'' = Some b)
   \<and> fst (invoke (ChildFn (VNum 8080) (Prompt (ChildCell ''advanced'' ''port'') ''port'' (VNum 8080))
                     (Prompt (GateCell ''advanced'') ''advanced'' (VBool False)))
        (run (FuncMap (BindPrompts (exampleTemplate False))) [''name'', ''advanced'']
          \<lparr>cache = [(Prompt (ChildCell ''advanced'' ''port'') ''port'' (VNum 8080), VNum 9090),
              (Prompt (GateCell ''advanced'') ''advanced'' (VBool False), VBool True)],
           asked = [Prompt (ChildCell ''advanced'' ''port'') ''port'' (VNum 8080),
              Prompt (GateCell ''advanced'') ''advanced'' (VBool False)],
           input = [Reply (VStr ''demo'')]\<rparr>)) = Value (VNum 9090)"
proof -
  let ?t = "exampleTemplate False"
  let ?v = "VMap [(''port'', VNum 8080), (''db'', VList [VStr ''pg'', VStr ''lite''])]"
  let ?b = "ChildFn (VNum 8080) (Prompt (ChildCell ''advanced'' ''port'') ''port'' (VNum 8080))
                     (Prompt (GateCell ''advanced'') ''advanced'' (VBool False))"
  have c: "map_of (Context ?t) ''advanced'' = Some ?v"
    by (simp add: exampleTemplate_def exampleContext_def)
  have b: "FuncMap (BindPrompts ?t) ''port'' = Some ?b"
    by (simp add: exampleTemplate_prompts_table)
  note th = bound_names_have_stable_bindings[OF c, of "''port''"
      "fresh [Reply (VBool True), Reply (VNum 9090), Reply (VStr ''demo'')]" "VNum 9090" _
      "[''name'', ''advanced'']"]
  from th have 1: "\<exists>!b. FuncMap (BindPrompts ?t) ''advanced'' = Some b" by simp
  from th have 2: "\<forall>c \<in> set (childKeys ?v). \<exists>!b. FuncMap (BindPrompts ?t) c = Some b" by blast
  from th b example_port_gate_true
  have 3: "fst (invoke ?b (run (FuncMap (BindPrompts ?t)) [''name'', ''advanced'']
          \<lparr>cache = [(Prompt (ChildCell ''advanced'' ''port'') ''port'' (VNum 8080), VNum 9090),
              (Prompt (GateCell ''advanced'') ''advanced'' (VBool False), VBool True)],
           asked = [Prompt (ChildCell ''advanced'' ''port'') ''port'' (VNum 8080),
              Prompt (GateCell ''advanced'') ''advanced'' (VBool False)],
           input = [Reply (VStr ''demo'')]\<rparr>)) = Value (VNum 9090)"
    by simp
  from 1 2 3 show ?thesis by (simp add: childKeys_def)
qed

section \<open>Loading the context\<close>

lemma BindPrompts_empty: "Context t = [] \<Longrightarrow> BindPrompts t = t"
  by (simp add: BindPrompts_def)

text \<open>
  C9. When the context file does not exist, loading it succeeds with the empty context,
  and (the path and the directory being accessible) \<^verbatim>\<open>Get\<close> returns a template without
  variables, whose binding adds nothing to the function table. When the file is there
  and \<^verbatim>\<open>json.Unmarshal\<close> rejects its content, loading fails with that error and \<^verbatim>\<open>Get\<close>
  returns the error and no template, so there is nothing to render.
\<close>

theorem context_file_absent_or_malformed:
  "(opn fname = Inl NotExist \<longrightarrow> loadContext opn rd um fname = Inr [])
   \<and> (absOf h path = Inr a \<and> osOpen h (joinOf h a (ContextFileName h)) = Inl NotExist
        \<and> statOf h a = Inr birth \<longrightarrow>
        (\<exists>t. Get h path = (Some t, None) \<and> Context t = [] \<and> BindPrompts t = t))
   \<and> (opn fname = Inr f \<and> rd f = Inr buf \<and> um buf = Inl err \<longrightarrow>
        loadContext opn rd um fname = Inl err)
   \<and> (absOf h path = Inr a \<and> osOpen h (joinOf h a (ContextFileName h)) = Inr f'
        \<and> readAll h f' = Inr buf \<and> unmarshal h buf = Inl err \<longrightarrow>
        Get h path = (None, Some err))"
  by (auto simp: loadContext_def Get_def BindPrompts_empty)

theorem context_file_absent_or_malformed_witness:
  "loadContext (osOpen (exampleHost None)) (readAll (exampleHost None))
      (unmarshal (exampleHost None)) ''/home/u/tpl/project.json'' = Inr []
   \<and> (\<exists>t. Get (exampleHost None) ''tpl'' = (Some t, None) \<and> Context t = [] \<and> BindPrompts t = t)
   \<and> loadContext (osOpen (exampleHost (Some ''{name: '')))
        (readAll (exampleHost (Some ''{name: '')))
        (unmarshal (exampleHost (Some ''{name: ''))) ''/home/u/tpl/project.json'' = Inl Malformed
   \<and> Get (exampleHost (Some ''{name: '')) ''tpl'' = (None, Some Malformed)"
proof -
  let ?h = "exampleHost None"
  let ?g = "exampleHost (Some ''{name: '')"
  note a = context_file_absent_or_malformed[of "osOpen ?h" "''/home/u/tpl/project.json''"
      "readAll ?h" "unmarshal ?h" ?h "''tpl''" "''/home/u/tpl''" None]
  note b = context_file_absent_or_malformed[of "osOpen ?g" "''/home/u/tpl/project.json''"
      "readAll ?g" "unmarshal ?g" ?g "''tpl''" "''/home/u/tpl''" _ "''{name: ''"
      "''{name: ''" Malformed "''{name: ''"]
  from a have 1: "loadContext (osOpen ?h) (readAll ?h) (unmarshal ?h) ''/home/u/tpl/project.json'' = Inr []"
    by (simp add: exampleHost_def)
  from a have 2: "\<exists>t. Get ?h ''tpl'' = (Some t, None) \<and> Context t = [] \<and> BindPrompts t = t"
    by (simp add: exampleHost_def)
  from b have 3: "loadContext (osOpen ?g) (readAll ?g) (unmarshal ?g) ''/home/u/tpl/project.json'' = Inl Malformed"
    by (simp add: exampleHost_def)
  from b have 4: "Get ?g ''tpl'' = (None, Some Malformed)"
    by (simp add: exampleHost_def)
  from 1 2 3 4 show ?thesis by simp
qed



section \<open>Properties of the renderer\<close>

lemma osRemove_nodes:
  "map_of (nodes (snd (osRemove p d))) =
     (if fst (osRemove p d) = None then (map_of (nodes d))(p := None) else map_of (nodes d))"
  by (auto simp: osRemove_def delete_conv' split: option.splits)

lemma osRemove_frame:
  "denied (snd (osRemove p d)) = denied d" "unreadable (snd (osRemove p d)) = unreadable d"
  by (auto simp: osRemove_def split: option.splits)

lemma osRemove_absent:
  "fst (osRemove p d) = None \<or> fst (osRemove p d) = Some NotExist \<Longrightarrow>
   map_of (nodes (snd (osRemove p d))) = (map_of (nodes d))(p := None)"
  by (auto simp: osRemove_def delete_conv' split: option.splits if_splits)

lemma osRemove_cases:
  "fst (osRemove p d) =
     (case map_of (nodes d) p of
        None \<Rightarrow> Some NotExist
      | Some n \<Rightarrow> (if p \<in> set (denied d) \<or> (n = Dir \<and> hasEntries p d) then Some OtherIO else None))"
  by (auto simp: osRemove_def split: option.splits)

lemma osRemove_unchanged: "fst (osRemove p d) \<noteq> None \<Longrightarrow> snd (osRemove p d) = d"
  by (auto simp: osRemove_def split: option.splits if_splits)

lemma osOpenFile_new:
  "map_of (nodes d) p = None \<Longrightarrow> p \<notin> set (denied d) \<Longrightarrow>
   osOpenFile p mode d = (None, d\<lparr>nodes := AList.update p (File mode []) (nodes d)\<rparr>)"
  by (simp add: osOpenFile_def)

lemma osOpenFile_denied: "p \<in> set (denied d) \<Longrightarrow> osOpenFile p mode d = (Some OtherIO, d)"
  by (simp add: osOpenFile_def)

lemma osWrite_new:
  "map_of (nodes d) p = Some (File m c) \<Longrightarrow>
   map_of (nodes (osWrite p out d)) = (map_of (nodes d))(p \<mapsto> File m (c @ out))"
  by (simp add: osWrite_def update_conv')

lemma osWrite_frame:
  "denied (osWrite p out d) = denied d" "unreadable (osWrite p out d) = unreadable d"
  by (auto simp: osWrite_def split: option.splits node.splits)

lemma prune_file:
  assumes "map_of (nodes (disk s)) p = Some (File m c)" and "p \<notin> set (unreadable (disk s))"
    and "p \<notin> set (denied (disk s))"
  shows "map_of (nodes (disk (prune p s))) =
           (map_of (nodes (disk s)))(p := (if isOnlyWhitespace c then None else Some (File m c)))"
    and "denied (disk (prune p s)) = denied (disk s)"
    and "unreadable (disk (prune p s)) = unreadable (disk s)"
    and "user (prune p s) = user s"
  using assms
  by (auto simp: prune_def ReadFile_def osRemove_def delete_conv' fun_upd_idem)

lemma renderFile_written:
  assumes "E (FuncMap t) (body e) (user s) = (Output out err, w2)"
    and "map_of (nodes (disk s)) p = Some (File m [])"
    and "p \<notin> set (unreadable (disk s))" and "p \<notin> set (denied (disk s))"
  shows "map_of (nodes (disk (snd (renderFile E t e newName p s)))) =
           (map_of (nodes (disk s)))(p := (if isOnlyWhitespace out then None else Some (File m out)))"
    and "fst (renderFile E t e newName p s) = (case err of None \<Rightarrow> Ok | Some x \<Rightarrow> Err x)"
    and "user (snd (renderFile E t e newName p s)) = w2"
    and "denied (disk (snd (renderFile E t e newName p s))) = denied (disk s)"
    and "unreadable (disk (snd (renderFile E t e newName p s))) = unreadable (disk s)"
proof -
  let ?d3 = "osWrite p out (disk s)"
  have d3n: "map_of (nodes ?d3) = (map_of (nodes (disk s)))(p \<mapsto> File m out)"
    using osWrite_new[OF assms(2), of out] by simp
  have d3f: "denied ?d3 = denied (disk s)" "unreadable ?d3 = unreadable (disk s)"
    by (simp_all add: osWrite_frame)
  have pr: "\<And>s3. disk s3 = ?d3 \<Longrightarrow>
      map_of (nodes (disk (prune p s3))) =
        (map_of (nodes (disk s)))(p := (if isOnlyWhitespace out then None else Some (File m out)))
      \<and> denied (disk (prune p s3)) = denied (disk s)
      \<and> unreadable (disk (prune p s3)) = unreadable (disk s)
      \<and> user (prune p s3) = user s3"
  proof -
    fix s3 :: state assume d: "disk s3 = ?d3"
    have p3: "map_of (nodes (disk s3)) p = Some (File m out)" using d3n d by simp
    have u3: "p \<notin> set (unreadable (disk s3))" "p \<notin> set (denied (disk s3))"
      using d3f d assms(3,4) by simp_all
    show "map_of (nodes (disk (prune p s3))) =
        (map_of (nodes (disk s)))(p := (if isOnlyWhitespace out then None else Some (File m out)))
      \<and> denied (disk (prune p s3)) = denied (disk s)
      \<and> unreadable (disk (prune p s3)) = unreadable (disk s)
      \<and> user (prune p s3) = user s3"
      using prune_file[OF p3 u3] d d3n d3f by simp
  qed
  show "map_of (nodes (disk (snd (renderFile E t e newName p s)))) =
           (map_of (nodes (disk s)))(p := (if isOnlyWhitespace out then None else Some (File m out)))"
    using assms(1) by (cases err) (simp_all add: renderFile_def pr)
  show "fst (renderFile E t e newName p s) = (case err of None \<Rightarrow> Ok | Some x \<Rightarrow> Err x)"
    using assms(1) by (cases err) (simp_all add: renderFile_def)
  show "user (snd (renderFile E t e newName p s)) = w2"
    using assms(1) by (cases err) (simp_all add: renderFile_def pr)
  show "denied (disk (snd (renderFile E t e newName p s))) = denied (disk s)"
    using assms(1) by (cases err) (simp_all add: renderFile_def pr)
  show "unreadable (disk (snd (renderFile E t e newName p s))) = unreadable (disk s)"
    using assms(1) by (cases err) (simp_all add: renderFile_def pr)
qed

text \<open>What the callback does for a file whose name renders and whose target can be replaced.\<close>

lemma walkFn_file:
  assumes "walkErr e = None" and "\<not> isDir e" and "lstatErr e = None"
    and "E (FuncMap t) (relName e) (user s) = (Output newName None, w1)"
    and "fst (osRemove (join dirPrefix newName) (disk s)) = None
         \<or> fst (osRemove (join dirPrefix newName) (disk s)) = Some NotExist"
    and "join dirPrefix newName \<notin> set (denied (disk s))"
    and "join dirPrefix newName \<notin> set (unreadable (disk s))"
    and "E (FuncMap t) (body e) w1 = (Output out err, w2)"
  shows "map_of (nodes (disk (snd (walkFn E join t dirPrefix e s)))) =
           (map_of (nodes (disk s)))(join dirPrefix newName :=
              (if isOnlyWhitespace out then None else Some (File (perm e) out)))"
    and "fst (walkFn E join t dirPrefix e s) = (case err of None \<Rightarrow> Ok | Some x \<Rightarrow> Err x)"
    and "user (snd (walkFn E join t dirPrefix e s)) = w2"
    and "denied (disk (snd (walkFn E join t dirPrefix e s))) = denied (disk s)"
    and "unreadable (disk (snd (walkFn E join t dirPrefix e s))) = unreadable (disk s)"
proof -
  let ?p = "join dirPrefix newName"
  obtain rmErr d1 where rm: "osRemove ?p (disk s) = (rmErr, d1)" by (cases "osRemove ?p (disk s)")
  have rmOk: "(case rmErr of Some err \<Rightarrow> (if err \<noteq> NotExist then Some err else None) | None \<Rightarrow> None) = None"
    using assms(5) rm by auto
  have d1n: "map_of (nodes d1) = (map_of (nodes (disk s)))(?p := None)"
    using osRemove_absent[OF assms(5)] rm by simp
  have d1f: "denied d1 = denied (disk s)" "unreadable d1 = unreadable (disk s)"
    using osRemove_frame[of ?p "disk s"] rm by simp_all
  let ?d2 = "d1\<lparr>nodes := AList.update ?p (File (perm e) []) (nodes d1)\<rparr>"
  have op: "osOpenFile ?p (perm e) d1 = (None, ?d2)"
    using d1n d1f assms(6) by (simp add: osOpenFile_new)
  let ?s2 = "s\<lparr>user := w1, disk := ?d2\<rparr>"
  have w: "walkFn E join t dirPrefix e s = renderFile E t e newName ?p ?s2"
    using assms(1-4) rm rmOk op by (simp add: walkFn_def Let_def)
  have e2: "E (FuncMap t) (body e) (user ?s2) = (Output out err, w2)" using assms(8) by simp
  have d2p: "map_of (nodes (disk ?s2)) ?p = Some (File (perm e) [])" by (simp add: update_conv')
  have u2: "?p \<notin> set (unreadable (disk ?s2))" "?p \<notin> set (denied (disk ?s2))"
    using d1f assms(6,7) by simp_all
  note rf = renderFile_written[where E = E and t = t and e = e and s = "?s2" and p = "?p"
      and newName = newName, OF e2 d2p u2]
  have d2n: "map_of (nodes (disk ?s2)) = (map_of (nodes (disk s)))(?p \<mapsto> File (perm e) [])"
    using d1n by (simp add: update_conv')
  show "map_of (nodes (disk (snd (walkFn E join t dirPrefix e s)))) =
           (map_of (nodes (disk s)))(?p := (if isOnlyWhitespace out then None else Some (File (perm e) out)))"
    unfolding w rf(1) d2n by simp
  show "fst (walkFn E join t dirPrefix e s) = (case err of None \<Rightarrow> Ok | Some x \<Rightarrow> Err x)"
    unfolding w by (rule rf(2))
  show "user (snd (walkFn E join t dirPrefix e s)) = w2" unfolding w by (rule rf(3))
  show "denied (disk (snd (walkFn E join t dirPrefix e s))) = denied (disk s)"
    unfolding w rf(4) using d1f by simp
  show "unreadable (disk (snd (walkFn E join t dirPrefix e s))) = unreadable (disk s)"
    unfolding w rf(5) using d1f by simp
qed

text \<open>Every system call changes the table at its own path only.\<close>

lemma osMkdir_other: "q \<noteq> p \<Longrightarrow> map_of (nodes (snd (osMkdir q d))) p = map_of (nodes d) p"
  by (simp add: osMkdir_def update_conv')

lemma osRemove_other: "q \<noteq> p \<Longrightarrow> map_of (nodes (snd (osRemove q d))) p = map_of (nodes d) p"
  by (simp add: osRemove_nodes)

lemma osOpenFile_other: "q \<noteq> p \<Longrightarrow> map_of (nodes (snd (osOpenFile q mode d))) p = map_of (nodes d) p"
  by (auto simp: osOpenFile_def update_conv' split: option.splits node.splits)

lemma osWrite_other: "q \<noteq> p \<Longrightarrow> map_of (nodes (osWrite q out d)) p = map_of (nodes d) p"
  by (auto simp: osWrite_def update_conv' split: option.splits node.splits)

lemma prune_other: "q \<noteq> p \<Longrightarrow> map_of (nodes (disk (prune q s))) p = map_of (nodes (disk s)) p"
  by (auto simp: prune_def osRemove_other split: sum.splits)

lemma renderFile_other:
  "q \<noteq> p \<Longrightarrow>
   map_of (nodes (disk (snd (renderFile E t e newName q s)))) p = map_of (nodes (disk s)) p"
  by (auto simp: renderFile_def prune_other osWrite_other
           split: prod.splits rendered.splits option.splits)

lemma walkFn_other:
  assumes "\<forall>n w'. E (FuncMap t) (relName e) (user s) = (Output n None, w') \<longrightarrow> join dirPrefix n \<noteq> p"
  shows "map_of (nodes (disk (snd (walkFn E join t dirPrefix e s)))) p = map_of (nodes (disk s)) p"
proof (cases "E (FuncMap t) (relName e) (user s)")
  case (Pair r w)
  show ?thesis
  proof (cases "\<exists>n. r = Output n None")
    case False
    then show ?thesis using Pair
      by (cases r) (auto simp: walkFn_def split: option.splits)
  next
    case True
    then obtain n where r: "r = Output n None" by blast
    then have ne: "join dirPrefix n \<noteq> p" using assms Pair by simp
    obtain rmErr d1 where rm: "osRemove (join dirPrefix n) (disk s) = (rmErr, d1)"
      by (cases "osRemove (join dirPrefix n) (disk s)")
    have d1: "map_of (nodes d1) p = map_of (nodes (disk s)) p"
      using osRemove_other[OF ne, of "disk s"] rm by simp
    obtain opErr d2 where op: "osOpenFile (join dirPrefix n) (perm e) d1 = (opErr, d2)"
      by (cases "osOpenFile (join dirPrefix n) (perm e) d1")
    have d2: "map_of (nodes d2) p = map_of (nodes (disk s)) p"
      using osOpenFile_other[OF ne, of "perm e" d1] op d1 by simp
    obtain mkErr d3 where mk: "osMkdir (join dirPrefix n) (disk s) = (mkErr, d3)"
      by (cases "osMkdir (join dirPrefix n) (disk s)")
    have d3: "map_of (nodes d3) p = map_of (nodes (disk s)) p"
      using osMkdir_other[OF ne, of "disk s"] mk by simp
    show ?thesis using Pair r rm op mk d1 d2 d3 renderFile_other[OF ne]
      by (auto simp: walkFn_def Let_def split: option.splits)
  qed
qed

lemma Walk_other:
  assumes "\<forall>e \<in> set es. \<forall>w n w'. E (FuncMap t) (relName e) w = (Output n None, w') \<longrightarrow>
             join dirPrefix n \<noteq> p"
  shows "map_of (nodes (disk (snd (Walk (walkFn E join t dirPrefix) es s)))) p =
         map_of (nodes (disk s)) p"
  using assms
proof (induction es arbitrary: s)
  case Nil
  then show ?case by simp
next
  case (Cons e es)
  obtain r s1 where st: "walkFn E join t dirPrefix e s = (r, s1)"
    by (cases "walkFn E join t dirPrefix e s")
  have "\<forall>n w'. E (FuncMap t) (relName e) (user s) = (Output n None, w') \<longrightarrow> join dirPrefix n \<noteq> p"
    using Cons.prems by simp
  then have k: "map_of (nodes (disk s1)) p = map_of (nodes (disk s)) p"
    using walkFn_other[where E = E and t = t and e = e and s = s and join = join
        and dirPrefix = dirPrefix and p = p] st by simp
  show ?case
  proof (cases "r = Ok")
    case True
    then have "Walk (walkFn E join t dirPrefix) (e # es) s = Walk (walkFn E join t dirPrefix) es s1"
      using st by simp
    then show ?thesis using Cons.IH[of s1] Cons.prems k by simp
  next
    case False
    then have "Walk (walkFn E join t dirPrefix) (e # es) s = (r, s1)"
      using st by (cases r) simp_all
    then show ?thesis using k by simp
  qed
qed

lemma Walk_append:
  "Walk fn pre s0 = (Ok, s) \<Longrightarrow> Walk fn (pre @ es) s0 = Walk fn es s"
proof (induction pre arbitrary: s0)
  case Nil
  then show ?case by simp
next
  case (Cons a pre)
  obtain r s1 where st: "fn a s0 = (r, s1)" by (cases "fn a s0")
  have "r = Ok" using Cons.prems st by (cases r) simp_all
  then show ?case using Cons st by simp
qed

text \<open>
  The node at the target of an entry at the end of a walk is the one its callback left,
  when no later entry renders to the same target.
\<close>

lemma Walk_target_final:
  assumes "Walk (walkFn E join t dirPrefix) pre s0 = (Ok, s)"
    and "\<forall>e' \<in> set rest. \<forall>w n w'. E (FuncMap t) (relName e') w = (Output n None, w') \<longrightarrow>
           join dirPrefix n \<noteq> p"
  shows "map_of (nodes (disk (snd (Walk (walkFn E join t dirPrefix) (pre @ e # rest) s0)))) p =
         map_of (nodes (disk (snd (walkFn E join t dirPrefix e s)))) p"
proof -
  let ?fn = "walkFn E join t dirPrefix"
  obtain r s1 where st: "?fn e s = (r, s1)" by (cases "?fn e s")
  have a: "Walk ?fn (pre @ e # rest) s0 = Walk ?fn (e # rest) s"
    using assms(1) by (rule Walk_append)
  show ?thesis
  proof (cases "r = Ok")
    case True
    then have "Walk ?fn (e # rest) s = Walk ?fn rest s1" using st by simp
    then show ?thesis using a st Walk_other[where E = E and t = t and join = join
        and dirPrefix = dirPrefix and es = rest and p = p and s = s1, OF assms(2)] by simp
  next
    case False
    then have "Walk ?fn (e # rest) s = (r, s1)" using st by (cases r) simp_all
    then show ?thesis using a st by simp
  qed
qed

lemma isOnlyWhitespace_set:
  "isOnlyWhitespace out \<longleftrightarrow> set out \<subseteq> {CHR 0x09, CHR 0x0A, CHR 0x0C, CHR 0x0D, CHR 0x20}"
  by (auto simp: isOnlyWhitespace_def list_ex_iff nonSpace_def)

lemma osRemove_ok:
  "\<not> (map_of (nodes d) p = Some Dir \<and> hasEntries p d) \<Longrightarrow> p \<notin> set (denied d) \<Longrightarrow>
   fst (osRemove p d) = None \<or> fst (osRemove p d) = Some NotExist"
  by (auto simp: osRemove_cases split: option.splits)

lemma scan_plain: "\<not> hasOpen src \<Longrightarrow> scan False acc src = [Text (rev acc @ src)]"
  by (induction src arbitrary: acc rule: hasOpen.induct) auto

lemma goTemplate_literal:
  "\<not> hasOpen src \<Longrightarrow> goTemplate strict fm src w = (Output src None, w)"
  by (simp add: goTemplate_def scan_plain)

lemma Execute_root:
  "Execute (goTemplate strict) joinPath [dirEntry ''.''] (templateOf [] True) ''/out''
     (startState ans emptyDisk) = (Ok, startState ans outDisk)"
  by (simp add: Execute_def walkFn_def goTemplate_literal dirEntry_def joinPath_def osMkdir_def
      startState_def emptyDisk_def outDisk_def BindPrompts_def templateOf_def)

text \<open>
  C4. After a render, the target of a file entry is absent if the rendered content is
  empty or made of whitespace only (space, tab and newline are whitespace; so are form
  feed and carriage return), and holds exactly the rendered content if that has a
  character that is not whitespace. The hypotheses say that the walk reaches the entry,
  that its callback gets as far as writing (the name renders, the system lets the target
  be replaced and read back), and that no later entry is rendered to the same target.
\<close>

theorem whitespace_only_output_is_pruned:
  assumes "Execute E join pre t0 dirPrefix s0 = (Ok, s)"
    and "t = BindPrompts t0"
    and "walkErr e = None" and "\<not> isDir e" and "lstatErr e = None"
    and "E (FuncMap t) (relName e) (user s) = (Output newName None, w1)"
    and "target = join dirPrefix newName"
    and "\<not> (map_of (nodes (disk s)) target = Some Dir \<and> hasEntries target (disk s))"
    and "target \<notin> set (denied (disk s))"
    and "target \<notin> set (unreadable (disk s))"
    and "E (FuncMap t) (body e) w1 = (Output out err, w2)"
    and "\<forall>e' \<in> set rest. \<forall>w n w'. E (FuncMap t) (relName e') w = (Output n None, w') \<longrightarrow>
           join dirPrefix n \<noteq> target"
    and "s' = snd (Execute E join (pre @ e # rest) t0 dirPrefix s0)"
  shows "(set out \<subseteq> {CHR 0x20, CHR 0x09, CHR 0x0A} \<longrightarrow> map_of (nodes (disk s')) target = None)
       \<and> (isOnlyWhitespace out \<longrightarrow> map_of (nodes (disk s')) target = None)
       \<and> (list_ex nonSpace out \<longrightarrow> contentAt (disk s') target = Some out)
       \<and> (isOnlyWhitespace out \<longleftrightarrow>
            set out \<subseteq> {CHR 0x09, CHR 0x0A, CHR 0x0C, CHR 0x0D, CHR 0x20})"
proof -
  have rm: "fst (osRemove (join dirPrefix newName) (disk s)) = None
            \<or> fst (osRemove (join dirPrefix newName) (disk s)) = Some NotExist"
    using assms(7,8,9) by (simp add: osRemove_ok)
  have pre: "Walk (walkFn E join t dirPrefix) pre s0 = (Ok, s)"
    using assms(1,2) by (simp add: Execute_def)
  have fin: "map_of (nodes (disk s')) target =
             map_of (nodes (disk (snd (walkFn E join t dirPrefix e s)))) target"
    using Walk_target_final[where E = E and join = join and t = t and dirPrefix = dirPrefix
        and pre = pre and ?s0.0 = s0 and s = s and rest = rest and p = target and e = e,
        OF pre assms(12)] assms(2,13)
    by (simp add: Execute_def)
  have n: "map_of (nodes (disk s')) target =
             (if isOnlyWhitespace out then None else Some (File (perm e) out))"
    unfolding fin
    using walkFn_file[where E = E and join = join and t = t and dirPrefix = dirPrefix and e = e
        and s = s and newName = newName and ?w1.0 = w1 and out = out and ?w2.0 = w2 and err = err,
        OF assms(3,4,5,6) rm _ _ assms(11)] assms(7,9,10)
    by simp
  have a: "isOnlyWhitespace out \<longrightarrow> map_of (nodes (disk s')) target = None"
    using n by simp
  have b: "list_ex nonSpace out \<longrightarrow> contentAt (disk s') target = Some out"
    using n by (simp add: contentAt_def isOnlyWhitespace_def)
  have c: "set out \<subseteq> {CHR 0x20, CHR 0x09, CHR 0x0A} \<longrightarrow> isOnlyWhitespace out"
    by (auto simp: isOnlyWhitespace_set)
  show ?thesis using a b c isOnlyWhitespace_set[of out] by blast
qed

lemma rest_other_target:
  "\<forall>e' \<in> set [fileEntry ''b.txt'' ''y''].
     \<forall>w n w'. goTemplate strict fm (relName e') w = (Output n None, w') \<longrightarrow>
       joinPath ''/out'' n \<noteq> ''/out/a.txt''"
  by (simp add: fileEntry_def goTemplate_literal joinPath_def)

theorem whitespace_only_output_is_pruned_witness:
  "map_of (nodes (disk (snd (Execute (goTemplate False) joinPath
      [dirEntry ''.'', fileEntry ''a.txt'' [CHR 0x20, CHR 0x0A], fileEntry ''b.txt'' ''y'']
      (templateOf [] True) ''/out'' (startState [] emptyDisk))))) ''/out/a.txt'' = None
   \<and> contentAt (disk (snd (Execute (goTemplate False) joinPath
      [dirEntry ''.'', fileEntry ''a.txt'' ''x'', fileEntry ''b.txt'' ''y'']
      (templateOf [] True) ''/out'' (startState [] emptyDisk)))) ''/out/a.txt'' = Some ''x''"
proof -
  let ?tz = "templateOf [] True"
  let ?t = "BindPrompts ?tz"
  let ?ini = "startState [] emptyDisk"
  let ?s = "startState [] outDisk"
  let ?e1 = "fileEntry ''a.txt'' [CHR 0x20, CHR 0x0A]"
  let ?e2 = "fileEntry ''a.txt'' ''x''"
  have p: "Execute (goTemplate False) joinPath [dirEntry ''.''] ?tz ''/out'' ?ini = (Ok, ?s)"
    by (rule Execute_root)
  have h1: "walkErr ?e1 = None" "\<not> isDir ?e1" "lstatErr ?e1 = None"
    and h2: "walkErr ?e2 = None" "\<not> isDir ?e2" "lstatErr ?e2 = None"
    by (simp_all add: fileEntry_def)
  have n1: "goTemplate False (FuncMap ?t) (relName ?e1) (user ?s) = (Output ''a.txt'' None, user ?s)"
    and n2: "goTemplate False (FuncMap ?t) (relName ?e2) (user ?s) = (Output ''a.txt'' None, user ?s)"
    by (simp_all add: fileEntry_def goTemplate_literal)
  have tg: "''/out/a.txt'' = joinPath ''/out'' ''a.txt''" by (simp add: joinPath_def)
  have d: "\<not> (map_of (nodes (disk ?s)) ''/out/a.txt'' = Some Dir \<and> hasEntries ''/out/a.txt'' (disk ?s))"
    "''/out/a.txt'' \<notin> set (denied (disk ?s))" "''/out/a.txt'' \<notin> set (unreadable (disk ?s))"
    by (simp_all add: startState_def outDisk_def)
  have b1: "goTemplate False (FuncMap ?t) (body ?e1) (user ?s) = (Output [CHR 0x20, CHR 0x0A] None, user ?s)"
    by (simp add: fileEntry_def goTemplate_literal)
  have b2: "goTemplate False (FuncMap ?t) (body ?e2) (user ?s) = (Output ''x'' None, user ?s)"
    by (simp add: fileEntry_def goTemplate_literal)
  have 1: "map_of (nodes (disk (snd (Execute (goTemplate False) joinPath
      ([dirEntry ''.''] @ ?e1 # [fileEntry ''b.txt'' ''y'']) ?tz ''/out'' ?ini)))) ''/out/a.txt'' = None"
    using whitespace_only_output_is_pruned[where E = "goTemplate False" and join = joinPath
        and ?t0.0 = ?tz and t = ?t and e = ?e1 and s = ?s and ?s0.0 = ?ini
        and pre = "[dirEntry ''.'']" and rest = "[fileEntry ''b.txt'' ''y'']",
        OF p refl h1 n1 tg d b1 rest_other_target refl]
    by simp
  have 2: "contentAt (disk (snd (Execute (goTemplate False) joinPath
      ([dirEntry ''.''] @ ?e2 # [fileEntry ''b.txt'' ''y'']) ?tz ''/out'' ?ini))) ''/out/a.txt'' = Some ''x''"
    using whitespace_only_output_is_pruned[where E = "goTemplate False" and join = joinPath
        and ?t0.0 = ?tz and t = ?t and e = ?e2 and s = ?s and ?s0.0 = ?ini
        and pre = "[dirEntry ''.'']" and rest = "[fileEntry ''b.txt'' ''y'']",
        OF p refl h2 n2 tg d b2 rest_other_target refl]
    by (simp add: nonSpace_def)
  from 1 2 show ?thesis by simp
qed

lemma scan_greeting_call:
  "scan False [] ''Hello, {{name}}!'' = [Text ''Hello, '', Call ''name'', Text ''!'']"
  by code_simp

lemma goTemplate_greeting:
  assumes "fm ''name'' = Some b" and "invoke b w = (Value (VStr ''World''), w')"
  shows "goTemplate strict fm ''Hello, {{name}}!'' w = (Output ''Hello, World!'' None, w')"
  unfolding goTemplate_def scan_greeting_call using assms
  by (simp add: printValue_def)

lemma hasOpen_greeting_name: "\<not> hasOpen ''greeting.txt''"
  by simp

text \<open>
  C3 (as amended). The source file \<^verbatim>\<open>greeting.txt\<close> with content \<^verbatim>\<open>Hello, {{name}}!\<close>, rendered
  with a table in which \<^verbatim>\<open>name\<close> resolves to the string \<^verbatim>\<open>World\<close>, gives the destination
  file \<^verbatim>\<open>greeting.txt\<close> with content \<^verbatim>\<open>Hello, World!\<close>.
\<close>

theorem greeting_is_rendered:
  assumes "FuncMap (BindPrompts t) ''name'' = Some b"
    and "invoke b (user s) = (Value (VStr ''World''), w)"
    and "\<not> (map_of (nodes (disk s)) (joinPath d ''greeting.txt'') = Some Dir
            \<and> hasEntries (joinPath d ''greeting.txt'') (disk s))"
    and "joinPath d ''greeting.txt'' \<notin> set (denied (disk s))"
    and "joinPath d ''greeting.txt'' \<notin> set (unreadable (disk s))"
  shows "fst (Execute (goTemplate strict) joinPath [fileEntry ''greeting.txt'' ''Hello, {{name}}!'']
               t d s) = Ok
       \<and> contentAt (disk (snd (Execute (goTemplate strict) joinPath
               [fileEntry ''greeting.txt'' ''Hello, {{name}}!''] t d s)))
           (joinPath d ''greeting.txt'') = Some ''Hello, World!''"
proof -
  let ?e = "fileEntry ''greeting.txt'' ''Hello, {{name}}!''"
  let ?t = "BindPrompts t"
  have h: "walkErr ?e = None" "\<not> isDir ?e" "lstatErr ?e = None"
    by (simp_all add: fileEntry_def)
  have n: "goTemplate strict (FuncMap ?t) (relName ?e) (user s) = (Output ''greeting.txt'' None, user s)"
    using goTemplate_literal[OF hasOpen_greeting_name] by (simp add: fileEntry_def)
  have b: "goTemplate strict (FuncMap ?t) (body ?e) (user s) = (Output ''Hello, World!'' None, w)"
    using goTemplate_greeting[where fm = "FuncMap ?t", OF assms(1,2)] by (simp add: fileEntry_def)
  have rm: "fst (osRemove (joinPath d ''greeting.txt'') (disk s)) = None
            \<or> fst (osRemove (joinPath d ''greeting.txt'') (disk s)) = Some NotExist"
    using assms(3,4) by (rule osRemove_ok)
  note wf = walkFn_file[where E = "goTemplate strict" and join = joinPath and t = ?t
      and dirPrefix = d and e = ?e and s = s and newName = "''greeting.txt''"
      and ?w1.0 = "user s" and out = "''Hello, World!''" and err = None and ?w2.0 = w,
      OF h n rm assms(4,5) b]
  have ws: "\<not> isOnlyWhitespace ''Hello, World!''"
    by (simp add: isOnlyWhitespace_def nonSpace_def)
  have r: "fst (walkFn (goTemplate strict) joinPath ?t d ?e s) = Ok" using wf(2) by simp
  obtain s' where s': "walkFn (goTemplate strict) joinPath ?t d ?e s = (Ok, s')"
    using r by (cases "walkFn (goTemplate strict) joinPath ?t d ?e s") auto
  have ex: "Execute (goTemplate strict) joinPath [?e] t d s = (Ok, s')"
    using s' by (simp add: Execute_def)
  have "contentAt (disk s') (joinPath d ''greeting.txt'') = Some ''Hello, World!''"
    using wf(1) s' ws by (simp add: contentAt_def)
  then show ?thesis using ex by simp
qed

theorem greeting_is_rendered_witness:
  "fst (Execute (goTemplate False) joinPath [fileEntry ''greeting.txt'' ''Hello, {{name}}!'']
          (templateOf greetingContext True) ''/out'' (startState [] emptyDisk)) = Ok
   \<and> contentAt (disk (snd (Execute (goTemplate False) joinPath
          [fileEntry ''greeting.txt'' ''Hello, {{name}}!'']
          (templateOf greetingContext True) ''/out'' (startState [] emptyDisk))))
        ''/out/greeting.txt'' = Some ''Hello, World!''
   \<and> contentAt (disk (snd (Execute (goTemplate True) joinPath
          [fileEntry ''greeting.txt'' ''Hello, {{name}}!'']
          (templateOf greetingContext False) ''/out'' (startState [Reply (VStr ''World'')] emptyDisk))))
        ''/out/greeting.txt'' = Some ''Hello, World!''"
proof -
  let ?s = "startState [] emptyDisk"
  let ?s2 = "startState [Reply (VStr ''World'')] emptyDisk"
  have t1: "FuncMap (BindPrompts (templateOf greetingContext True)) ''name'' = Some (DefaultOf (VStr ''World''))"
    by (simp add: templateOf_def greetingContext_def BindPrompts_def handleBindDefaults_def mapIndex_def)
  have i1: "invoke (DefaultOf (VStr ''World'')) (user ?s) = (Value (VStr ''World''), user ?s)"
    by simp
  have t2: "FuncMap (BindPrompts (templateOf greetingContext False)) ''name'' =
              Some (PromptFn (Prompt (TopCell ''name'') ''name'' (VStr ''World'')))"
    by (simp add: templateOf_def greetingContext_def BindPrompts_def handleBindPrompts_def mapIndex_def)
  have i2: "invoke (PromptFn (Prompt (TopCell ''name'') ''name'' (VStr ''World''))) (user ?s2) =
      (Value (VStr ''World''),
       \<lparr>cache = [(Prompt (TopCell ''name'') ''name'' (VStr ''World''), VStr ''World'')],
        asked = [Prompt (TopCell ''name'') ''name'' (VStr ''World'')], input = []\<rparr>)"
    by (simp add: startState_def fresh_def ask_def)
  have d: "\<not> (map_of (nodes (disk ?s)) (joinPath ''/out'' ''greeting.txt'') = Some Dir
            \<and> hasEntries (joinPath ''/out'' ''greeting.txt'') (disk ?s))"
    "joinPath ''/out'' ''greeting.txt'' \<notin> set (denied (disk ?s))"
    "joinPath ''/out'' ''greeting.txt'' \<notin> set (unreadable (disk ?s))"
    by (simp_all add: startState_def emptyDisk_def)
  have d2: "\<not> (map_of (nodes (disk ?s2)) (joinPath ''/out'' ''greeting.txt'') = Some Dir
            \<and> hasEntries (joinPath ''/out'' ''greeting.txt'') (disk ?s2))"
    "joinPath ''/out'' ''greeting.txt'' \<notin> set (denied (disk ?s2))"
    "joinPath ''/out'' ''greeting.txt'' \<notin> set (unreadable (disk ?s2))"
    by (simp_all add: startState_def emptyDisk_def)
  have j: "joinPath ''/out'' ''greeting.txt'' = ''/out/greeting.txt''" by (simp add: joinPath_def)
  show ?thesis
    using greeting_is_rendered[OF t1 i1 d, of False] greeting_is_rendered[OF t2 i2 d2, of True]
    unfolding j by simp
qed

text \<open>
  C3 as stated fails: \<^verbatim>\<open>Execute\<close> passes \<^verbatim>\<open>nil\<close> as data and installs the bindings as
  functions, so \<^verbatim>\<open>{{.name}}\<close>, a field of the data, does not reach the binding. The file
  reads \<^verbatim>\<open>Hello, <no value>!\<close>, or under \<^verbatim>\<open>missingkey=error\<close> the execution fails after
  \<^verbatim>\<open>Hello, \<close> was written.
\<close>

theorem greeting_field_syntax_counterexample:
  "FuncMap (BindPrompts (templateOf greetingContext True)) ''name'' = Some (DefaultOf (VStr ''World''))
   \<and> invoke (DefaultOf (VStr ''World'')) (fresh []) = (Value (VStr ''World''), fresh [])
   \<and> fst (Execute (goTemplate False) joinPath [fileEntry ''greeting.txt'' ''Hello, {{.name}}!'']
          (templateOf greetingContext True) ''/out'' (startState [] emptyDisk)) = Ok
   \<and> contentAt (disk (snd (Execute (goTemplate False) joinPath
          [fileEntry ''greeting.txt'' ''Hello, {{.name}}!'']
          (templateOf greetingContext True) ''/out'' (startState [] emptyDisk))))
        ''/out/greeting.txt'' = Some ''Hello, <no value>!''
   \<and> fst (Execute (goTemplate True) joinPath [fileEntry ''greeting.txt'' ''Hello, {{.name}}!'']
          (templateOf greetingContext True) ''/out'' (startState [] emptyDisk)) = Err ExecFailed
   \<and> contentAt (disk (snd (Execute (goTemplate True) joinPath
          [fileEntry ''greeting.txt'' ''Hello, {{.name}}!'']
          (templateOf greetingContext True) ''/out'' (startState [] emptyDisk))))
        ''/out/greeting.txt'' = Some ''Hello, ''"
  by code_simp




lemma walkFn_plain_dir:
  assumes "E (FuncMap t) (relName e) (user s) = (Output (relName e) None, user s)"
    and "walkErr e = None" and "isDir e"
    and "join dirPrefix (relName e) \<notin> set (denied (disk s))"
    and "map_of (nodes (disk s)) (join dirPrefix (relName e)) = None
         \<or> map_of (nodes (disk s)) (join dirPrefix (relName e)) = Some Dir"
  shows "fst (walkFn E join t dirPrefix e s) = Ok"
    and "map_of (nodes (disk (snd (walkFn E join t dirPrefix e s)))) =
           (map_of (nodes (disk s)))(join dirPrefix (relName e) \<mapsto> Dir)"
    and "denied (disk (snd (walkFn E join t dirPrefix e s))) = denied (disk s)"
    and "unreadable (disk (snd (walkFn E join t dirPrefix e s))) = unreadable (disk s)"
    and "user (snd (walkFn E join t dirPrefix e s)) = user s"
  using assms by (auto simp: walkFn_def Let_def osMkdir_def update_conv')

text \<open>
  One step of the walk over a tree without template expressions: the callback leaves
  at its target what the source has there, and touches nothing else.
\<close>

lemma walkFn_plain:
  assumes lit: "\<forall>src w. \<not> hasOpen src \<longrightarrow> E (FuncMap t) src w = (Output src None, w)"
    and plain: "\<not> hasOpen (relName e) \<and> \<not> hasOpen (body e)"
    and ok: "walkErr e = None \<and> lstatErr e = None"
    and sys: "join dirPrefix (relName e) \<notin> set (denied (disk s))
              \<and> join dirPrefix (relName e) \<notin> set (unreadable (disk s))"
    and fit: "(isDir e \<longrightarrow> map_of (nodes (disk s)) (join dirPrefix (relName e)) = None
                         \<or> map_of (nodes (disk s)) (join dirPrefix (relName e)) = Some Dir)
            \<and> (\<not> isDir e \<longrightarrow> map_of (nodes (disk s)) (join dirPrefix (relName e)) \<noteq> Some Dir)"
  shows "fst (walkFn E join t dirPrefix e s) = Ok
       \<and> map_of (nodes (disk (snd (walkFn E join t dirPrefix e s)))) =
           (map_of (nodes (disk s)))(join dirPrefix (relName e) := expected e)
       \<and> denied (disk (snd (walkFn E join t dirPrefix e s))) = denied (disk s)
       \<and> unreadable (disk (snd (walkFn E join t dirPrefix e s))) = unreadable (disk s)
       \<and> user (snd (walkFn E join t dirPrefix e s)) = user s"
proof (cases "isDir e")
  case True
  have n: "E (FuncMap t) (relName e) (user s) = (Output (relName e) None, user s)"
    using lit plain by simp
  have f: "map_of (nodes (disk s)) (join dirPrefix (relName e)) = None
         \<or> map_of (nodes (disk s)) (join dirPrefix (relName e)) = Some Dir"
    using fit True by blast
  have d: "join dirPrefix (relName e) \<notin> set (denied (disk s))" using sys by simp
  have w: "walkErr e = None" using ok by simp
  show ?thesis
    using walkFn_plain_dir[where E = E and join = join and t = t and dirPrefix = dirPrefix
        and e = e and s = s, OF n w True d f] True
    by (simp add: expected_def)
next
  case False
  have n: "E (FuncMap t) (relName e) (user s) = (Output (relName e) None, user s)"
    using lit plain by simp
  have b: "E (FuncMap t) (body e) (user s) = (Output (body e) None, user s)"
    using lit plain by simp
  have a: "map_of (nodes (disk s)) (join dirPrefix (relName e)) \<noteq> Some Dir"
    using fit False by blast
  have d: "join dirPrefix (relName e) \<notin> set (denied (disk s))" using sys by simp
  have rm: "fst (osRemove (join dirPrefix (relName e)) (disk s)) = None
            \<or> fst (osRemove (join dirPrefix (relName e)) (disk s)) = Some NotExist"
    using a d by (simp add: osRemove_ok)
  show ?thesis
    using walkFn_file[where E = E and join = join and t = t and dirPrefix = dirPrefix and e = e
        and s = s and newName = "relName e" and ?w1.0 = "user s" and out = "body e"
        and ?w2.0 = "user s" and err = None, OF _ False _ n rm _ _ b] ok sys False
    by (simp add: expected_def)
qed

lemma Walk_plain:
  assumes lit: "\<forall>src w. \<not> hasOpen src \<longrightarrow> E (FuncMap t) src w = (Output src None, w)"
    and plain: "\<forall>e \<in> set es. \<not> hasOpen (relName e) \<and> \<not> hasOpen (body e)"
    and ok: "\<forall>e \<in> set es. walkErr e = None \<and> lstatErr e = None"
    and dist: "distinct (map (\<lambda>e. join dirPrefix (relName e)) es)"
    and sys: "\<forall>e \<in> set es. join dirPrefix (relName e) \<notin> set (denied (disk s))
              \<and> join dirPrefix (relName e) \<notin> set (unreadable (disk s))"
    and fit: "\<forall>e \<in> set es.
              (isDir e \<longrightarrow> map_of (nodes (disk s)) (join dirPrefix (relName e)) = None
                         \<or> map_of (nodes (disk s)) (join dirPrefix (relName e)) = Some Dir)
            \<and> (\<not> isDir e \<longrightarrow> map_of (nodes (disk s)) (join dirPrefix (relName e)) \<noteq> Some Dir)"
  shows "fst (Walk (walkFn E join t dirPrefix) es s) = Ok
       \<and> (\<forall>e \<in> set es. map_of (nodes (disk (snd (Walk (walkFn E join t dirPrefix) es s))))
                           (join dirPrefix (relName e)) = expected e)
       \<and> (\<forall>p. p \<notin> set (map (\<lambda>e. join dirPrefix (relName e)) es) \<longrightarrow>
             map_of (nodes (disk (snd (Walk (walkFn E join t dirPrefix) es s)))) p =
             map_of (nodes (disk s)) p)
       \<and> user (snd (Walk (walkFn E join t dirPrefix) es s)) = user s"
  using plain ok dist sys fit
proof (induction es arbitrary: s)
  case Nil
  then show ?case by simp
next
  case (Cons e es)
  let ?fn = "walkFn E join t dirPrefix"
  let ?tg = "\<lambda>e. join dirPrefix (relName e)"
  obtain r s1 where st: "?fn e s = (r, s1)" by (cases "?fn e s")
  have step: "r = Ok \<and> map_of (nodes (disk s1)) = (map_of (nodes (disk s)))(?tg e := expected e)
       \<and> denied (disk s1) = denied (disk s) \<and> unreadable (disk s1) = unreadable (disk s)
       \<and> user s1 = user s"
    using walkFn_plain[where E = E and join = join and t = t and dirPrefix = dirPrefix
        and e = e and s = s, OF lit] Cons.prems st by simp
  have ne: "\<forall>e' \<in> set es. ?tg e' \<noteq> ?tg e"
  proof
    fix e' assume "e' \<in> set es"
    then have "?tg e' \<in> set (map ?tg es)" by simp
    moreover have "?tg e \<notin> set (map ?tg es)" using Cons.prems(3) by simp
    ultimately show "?tg e' \<noteq> ?tg e" by metis
  qed
  have same: "\<forall>e' \<in> set es. map_of (nodes (disk s1)) (?tg e') = map_of (nodes (disk s)) (?tg e')"
    using ne step by simp
  have fit1: "\<forall>e' \<in> set es.
              (isDir e' \<longrightarrow> map_of (nodes (disk s1)) (?tg e') = None
                         \<or> map_of (nodes (disk s1)) (?tg e') = Some Dir)
            \<and> (\<not> isDir e' \<longrightarrow> map_of (nodes (disk s1)) (?tg e') \<noteq> Some Dir)"
    using Cons.prems(5) same by simp
  have sys1: "\<forall>e' \<in> set es. ?tg e' \<notin> set (denied (disk s1)) \<and> ?tg e' \<notin> set (unreadable (disk s1))"
    using Cons.prems(4) step by simp
  have ih: "fst (Walk ?fn es s1) = Ok
       \<and> (\<forall>e \<in> set es. map_of (nodes (disk (snd (Walk ?fn es s1)))) (?tg e) = expected e)
       \<and> (\<forall>p. p \<notin> set (map ?tg es) \<longrightarrow>
             map_of (nodes (disk (snd (Walk ?fn es s1)))) p = map_of (nodes (disk s1)) p)
       \<and> user (snd (Walk ?fn es s1)) = user s1"
    using Cons.IH[of s1] Cons.prems(1,2,3) sys1 fit1 by simp
  have w: "Walk ?fn (e # es) s = Walk ?fn es s1" using st step by simp
  have "?tg e \<notin> set (map ?tg es)" using Cons.prems(3) by simp
  then have here: "map_of (nodes (disk (snd (Walk ?fn es s1)))) (?tg e) = expected e"
    using ih step by simp
  show ?case unfolding w using ih here step by auto
qed

lemma goFuncs_good:
  "list_all goodName names \<Longrightarrow> list_all (list_all (\<lambda>c. (of_char c :: nat) < 128)) names \<Longrightarrow>
   goFuncs names strict fm src w = goTemplate strict fm src w"
  by (auto simp: goFuncs_def Let_def list_all_iff)

text \<open>
  C6 (as amended). For a source tree without template expressions in paths and contents,
  rendered by an engine that, given the table that binding has built, copies text
  without template expressions (the engine at hand does when every name in the table is
  an identifier), into a destination that has no file where the sources have a directory
  and no directory where they have a file, and refuses nothing at the rendered paths:
  the walk succeeds, every directory is there, every file with a character that is not
  whitespace is there with the mode and exactly the content of the source, in place of
  whatever file was there before, and every file that is empty or whitespace only is
  absent.
\<close>

theorem plain_tree_is_reproduced:
  assumes "\<forall>src w. \<not> hasOpen src \<longrightarrow> E (FuncMap (BindPrompts t)) src w = (Output src None, w)"
    and "\<forall>e \<in> set es. \<not> hasOpen (relName e) \<and> \<not> hasOpen (body e)"
    and "\<forall>e \<in> set es. walkErr e = None \<and> lstatErr e = None"
    and "distinct (map (\<lambda>e. join dirPrefix (relName e)) es)"
    and "\<forall>e \<in> set es. join dirPrefix (relName e) \<notin> set (denied (disk s))
              \<and> join dirPrefix (relName e) \<notin> set (unreadable (disk s))"
    and "\<forall>e \<in> set es.
              (isDir e \<longrightarrow> map_of (nodes (disk s)) (join dirPrefix (relName e)) = None
                         \<or> map_of (nodes (disk s)) (join dirPrefix (relName e)) = Some Dir)
            \<and> (\<not> isDir e \<longrightarrow> map_of (nodes (disk s)) (join dirPrefix (relName e)) \<noteq> Some Dir)"
  shows "fst (Execute E join es t dirPrefix s) = Ok
       \<and> (\<forall>e \<in> set es. isDir e \<longrightarrow>
            map_of (nodes (disk (snd (Execute E join es t dirPrefix s))))
              (join dirPrefix (relName e)) = Some Dir)
       \<and> (\<forall>e \<in> set es. \<not> isDir e \<and> \<not> isOnlyWhitespace (body e) \<longrightarrow>
            map_of (nodes (disk (snd (Execute E join es t dirPrefix s))))
              (join dirPrefix (relName e)) = Some (File (perm e) (body e)))
       \<and> (\<forall>e \<in> set es. \<not> isDir e \<and> isOnlyWhitespace (body e) \<longrightarrow>
            map_of (nodes (disk (snd (Execute E join es t dirPrefix s))))
              (join dirPrefix (relName e)) = None)"
proof -
  note w = Walk_plain[where E = E and join = join and t = "BindPrompts t" and dirPrefix = dirPrefix
      and es = es and s = s, OF assms]
  have n: "\<forall>e \<in> set es. map_of (nodes (disk (snd (Execute E join es t dirPrefix s))))
                           (join dirPrefix (relName e)) = expected e"
    using w by (simp add: Execute_def)
  have "fst (Execute E join es t dirPrefix s) = Ok" using w by (simp add: Execute_def)
  then show ?thesis using n by (simp add: expected_def)
qed

text \<open>
  At a concrete input: a context whose name is an identifier, the engine that checks
  the names, and a destination that already holds the directory and an older, longer
  version of one file.
\<close>

theorem plain_tree_is_reproduced_witness:
  "fst (Execute (goFuncs (variables greetingContext) False) joinPath plainTree
         (templateOf greetingContext True) ''/out'' (startState [] usedDisk)) = Ok
   \<and> map_of (nodes (disk (snd (Execute (goFuncs (variables greetingContext) False) joinPath plainTree
         (templateOf greetingContext True) ''/out'' (startState [] usedDisk))))) ''/out/src'' = Some Dir
   \<and> map_of (nodes (disk (snd (Execute (goFuncs (variables greetingContext) False) joinPath plainTree
         (templateOf greetingContext True) ''/out'' (startState [] usedDisk))))) ''/out/src/main.go'' =
       Some (File 420 ''package main'')
   \<and> map_of (nodes (disk (snd (Execute (goFuncs (variables greetingContext) False) joinPath plainTree
         (templateOf greetingContext True) ''/out'' (startState [] usedDisk))))) ''/out/.gitkeep'' = None"
proof -
  let ?s = "startState [] usedDisk"
  let ?E = "goFuncs (variables greetingContext) False"
  let ?t = "templateOf greetingContext True"
  have g: "\<And>fm src w. ?E fm src w = goTemplate False fm src w"
    by (rule goFuncs_good)
       (simp_all add: greetingContext_def variables_def childKeys_def goodName_def identChar_def
          isDigit_def)
  have lit: "\<forall>src w. \<not> hasOpen src \<longrightarrow> ?E (FuncMap (BindPrompts ?t)) src w = (Output src None, w)"
    by (simp add: g goTemplate_literal)
  have plain: "\<forall>e \<in> set plainTree. \<not> hasOpen (relName e) \<and> \<not> hasOpen (body e)"
    by (simp add: plainTree_def fileEntry_def dirEntry_def)
  have ok: "\<forall>e \<in> set plainTree. walkErr e = None \<and> lstatErr e = None"
    by (simp add: plainTree_def fileEntry_def dirEntry_def)
  have dist: "distinct (map (\<lambda>e. joinPath ''/out'' (relName e)) plainTree)"
    by (simp add: plainTree_def fileEntry_def dirEntry_def joinPath_def)
  have sys: "\<forall>e \<in> set plainTree. joinPath ''/out'' (relName e) \<notin> set (denied (disk ?s))
              \<and> joinPath ''/out'' (relName e) \<notin> set (unreadable (disk ?s))"
    by (simp add: startState_def usedDisk_def)
  have fit: "\<forall>e \<in> set plainTree.
              (isDir e \<longrightarrow> map_of (nodes (disk ?s)) (joinPath ''/out'' (relName e)) = None
                         \<or> map_of (nodes (disk ?s)) (joinPath ''/out'' (relName e)) = Some Dir)
            \<and> (\<not> isDir e \<longrightarrow> map_of (nodes (disk ?s)) (joinPath ''/out'' (relName e)) \<noteq> Some Dir)"
    by (simp add: startState_def usedDisk_def plainTree_def fileEntry_def dirEntry_def joinPath_def)
  note th = plain_tree_is_reproduced[where E = ?E and join = joinPath
      and es = plainTree and dirPrefix = "''/out''" and s = ?s and t = ?t,
      OF lit plain ok dist sys fit]
  have m: "dirEntry ''src'' \<in> set plainTree" "fileEntry ''src/main.go'' ''package main'' \<in> set plainTree"
    "fileEntry ''.gitkeep'' [] \<in> set plainTree"
    by (simp_all add: plainTree_def)
  have 1: "fst (Execute ?E joinPath plainTree ?t ''/out'' ?s) = Ok"
    using th by simp
  have 2: "map_of (nodes (disk (snd (Execute ?E joinPath plainTree ?t ''/out'' ?s)))) ''/out/src'' = Some Dir"
    using th[THEN conjunct2, THEN conjunct1, THEN bspec, OF m(1)]
    by (simp add: dirEntry_def joinPath_def)
  have 3: "map_of (nodes (disk (snd (Execute ?E joinPath plainTree ?t ''/out'' ?s)))) ''/out/src/main.go'' =
       Some (File 420 ''package main'')"
    using th[THEN conjunct2, THEN conjunct2, THEN conjunct1, THEN bspec, OF m(2)]
    by (simp add: fileEntry_def joinPath_def isOnlyWhitespace_def nonSpace_def)
  have 4: "map_of (nodes (disk (snd (Execute ?E joinPath plainTree ?t ''/out'' ?s)))) ''/out/.gitkeep'' = None"
    using th[THEN conjunct2, THEN conjunct2, THEN conjunct2, THEN bspec, OF m(3)]
    by (simp add: fileEntry_def joinPath_def isOnlyWhitespace_def)
  from 1 2 3 4 show ?thesis by simp
qed

text \<open>
  C6 as stated fails in four ways, each on a tree without template expressions. An
  empty file is created and then pruned, so the destination is not a copy of the
  source. With a variable name that is not an identifier the engine panics on the
  function table before anything is written. A file that stands where the sources have
  a directory stays: \<^verbatim>\<open>Mkdir\<close> reports that the path exists, which the callback accepts.
  A directory that is not empty and stands where the sources have a file cannot be
  removed, and the walk stops with that error.
\<close>

theorem plain_tree_not_reproduced_counterexample:
  "\<not> hasOpen ''.gitkeep'' \<and> \<not> hasOpen [] \<and> \<not> hasOpen ''src'' \<and> \<not> hasOpen ''a.txt'' \<and> \<not> hasOpen ''x''
   \<and> fst (Execute (goTemplate False) joinPath [dirEntry ''.'', fileEntry ''.gitkeep'' []]
            (templateOf [] True) ''/out'' (startState [] emptyDisk)) = Ok
   \<and> map_of (nodes (disk (snd (Execute (goTemplate False) joinPath
            [dirEntry ''.'', fileEntry ''.gitkeep'' []]
            (templateOf [] True) ''/out'' (startState [] emptyDisk))))) ''/out/.gitkeep'' = None
   \<and> Execute (goFuncs (variables badNameContext) False) joinPath
        [dirEntry ''.'', fileEntry ''a.txt'' ''x'']
        (templateOf badNameContext True) ''/out'' (startState [] emptyDisk) =
      (Panicked, startState [] emptyDisk)
   \<and> fst (Execute (goTemplate False) joinPath [dirEntry ''src'']
            (templateOf [] True) ''/out'' (startState [] fileAtDirDisk)) = Ok
   \<and> map_of (nodes (disk (snd (Execute (goTemplate False) joinPath [dirEntry ''src'']
            (templateOf [] True) ''/out'' (startState [] fileAtDirDisk))))) ''/out/src'' =
       Some (File 420 ''x'')
   \<and> Execute (goTemplate False) joinPath [fileEntry ''a.txt'' ''x'']
        (templateOf [] True) ''/out'' (startState [] dirAtFileDisk) =
      (Err OtherIO, startState [] dirAtFileDisk)"
  by code_simp

end
